theory Spec2Isabelle
  imports Main "HOL-Library.Word"
begin

section \<open>The drpc stream (drpc/drpcstream/stream.go)\<close>

text \<open>
  A shallow embedding of \<^verbatim>\<open>drpcstream.Stream\<close>. Every method is a function from the
  stream's state to a result and the new state. The send guard \<^verbatim>\<open>sendMu\<close> serialises
  the bodies it protects, so a run of the stream is a sequence of method calls, each
  executed on the state its predecessor left. The monitor goroutine does nothing but
  one call of \<^verbatim>\<open>RawError\<close> or of \<^verbatim>\<open>RawCancel\<close>, so a run with the monitor is a
  run with that call somewhere in the sequence; the context and its cancel function
  are therefore not part of the state.
\<close>

subsection \<open>Wire data\<close>

text \<open>The payload kinds the stream uses (\<^verbatim>\<open>drpcwire.PayloadKind_*\<close>).\<close>

datatype PayloadKind =
  PayloadKind_Message | PayloadKind_Error | PayloadKind_Cancel | PayloadKind_CloseSend

record PacketID =
  StreamID :: "64 word"
  MessageID :: "64 word"

text \<open>A packet: identifier, payload kind, bytes.\<close>

record Packet =
  PID :: PacketID
  Kind :: PayloadKind
  Data :: string

subsection \<open>Errors\<close>

text \<open>
  The error values of the file: \<^verbatim>\<open>drpc.Error.New(msg)\<close>, \<^verbatim>\<open>context.Canceled\<close>,
  \<^verbatim>\<open>io.EOF\<close>, and whatever the writer or a caller of \<^verbatim>\<open>RawError\<close> supplies. A Go
  \<^verbatim>\<open>error\<close> is an \<open>error option\<close>, \<open>None\<close> being \<^verbatim>\<open>nil\<close>.
\<close>

datatype error = DrpcError string | ContextCanceled | EOF | OtherError string

text \<open>
  \<^verbatim>\<open>err.Error()\<close>. \<^verbatim>\<open>drpc.Error\<close> is declared outside these sources; its errors
  are taken to print the class name before the message. No property below depends on
  the text.
\<close>

fun Error_text :: "error \<Rightarrow> string" where
  "Error_text (DrpcError m) = ''drpc: '' @ m"
| "Error_text ContextCanceled = ''context canceled''"
| "Error_text EOF = ''EOF''"
| "Error_text (OtherError m) = m"

subsection \<open>Signal\<close>

text \<open>
  Modelled from the spec: \<^verbatim>\<open>drpcutil.Signal\<close> is not among the sources. It holds an
  optional error value and a flag "has been set"; \<^verbatim>\<open>Set\<close> records the value if and
  only if none has been recorded yet; \<^verbatim>\<open>Get\<close> returns the value and the flag without
  blocking; \<^verbatim>\<open>Err\<close> returns the recorded value, nil if unset.
\<close>

record Signal =
  is_set :: bool
  err :: "error option"

definition NewSignal :: Signal where
  "NewSignal = \<lparr>is_set = False, err = None\<rparr>"

definition Signal_Set :: "error option \<Rightarrow> Signal \<Rightarrow> Signal" where
  "Signal_Set e g = (if is_set g then g else \<lparr>is_set = True, err = e\<rparr>)"

definition Signal_Get :: "Signal \<Rightarrow> error option \<times> bool" where
  "Signal_Get g = (if is_set g then (err g, True) else (None, False))"

definition Signal_Err :: "Signal \<Rightarrow> error option" where
  "Signal_Err g = (if is_set g then err g else None)"

subsection \<open>Buffered writer\<close>

text \<open>
  Modelled from the spec: \<^verbatim>\<open>drpcutil.Buffer\<close> is not among the sources. \<^verbatim>\<open>Write\<close>
  buffers a packet and may fail, \<^verbatim>\<open>Flush\<close> pushes the buffered bytes and may fail. The
  model keeps the log of every call the stream makes (a packet handed to \<^verbatim>\<open>Write\<close> is
  logged whether or not the call fails) and takes the outcome of the \<open>n\<close>-th call from
  \<open>outcome\<close>, which is arbitrary.
\<close>

datatype wevent = Wr Packet | Fl

record Buffer =
  log :: "wevent list"
  outcome :: "nat \<Rightarrow> error option"

definition Buffer_Write :: "Packet \<Rightarrow> Buffer \<Rightarrow> error option \<times> Buffer" where
  "Buffer_Write pkt b = (outcome b (length (log b)), b\<lparr>log := log b @ [Wr pkt]\<rparr>)"

definition Buffer_Flush :: "Buffer \<Rightarrow> error option \<times> Buffer" where
  "Buffer_Flush b = (outcome b (length (log b)), b\<lparr>log := log b @ [Fl]\<rparr>)"

subsection \<open>Framer\<close>

text \<open>
  Modelled from the spec: \<^verbatim>\<open>drpcwire.Split\<close> is not among the sources. It
  deterministically partitions the data into one or more packets tagged with the
  packet identifier and the kind, invokes \<open>emit\<close> on each in order, and propagates
  the first error of \<open>emit\<close>. The largest payload of one packet is a constant of
  \<^verbatim>\<open>drpcwire\<close>, the parameter \<open>mps\<close> here (\<open>0\<close>: no splitting).
\<close>

function chunks :: "nat \<Rightarrow> string \<Rightarrow> string list" where
  "chunks n d = (if n = 0 \<or> length d \<le> n then [d] else take n d # chunks n (drop n d))"
  by pat_completeness auto
termination
  by (relation "measure (\<lambda>(n, d). length d)") auto

declare chunks.simps [simp del]

fun Split_emit ::
  "(Packet \<Rightarrow> 'st \<Rightarrow> error option \<times> 'st) \<Rightarrow> Packet list \<Rightarrow> 'st \<Rightarrow> error option \<times> 'st" where
  "Split_emit emit [] s = (None, s)"
| "Split_emit emit (p # ps) s =
     (case emit p s of
        (Some e, s') \<Rightarrow> (Some e, s')
      | (None, s') \<Rightarrow> Split_emit emit ps s')"

definition frames :: "nat \<Rightarrow> PayloadKind \<Rightarrow> PacketID \<Rightarrow> string \<Rightarrow> Packet list" where
  "frames mps kind pid data = map (\<lambda>d. \<lparr>PID = pid, Kind = kind, Data = d\<rparr>) (chunks mps data)"

definition Split ::
  "nat \<Rightarrow> PayloadKind \<Rightarrow> PacketID \<Rightarrow> string \<Rightarrow> (Packet \<Rightarrow> 'st \<Rightarrow> error option \<times> 'st)
     \<Rightarrow> 'st \<Rightarrow> error option \<times> 'st" where
  "Split mps kind pid data emit s = Split_emit emit (frames mps kind pid data) s"

subsection \<open>Stream\<close>

text \<open>
  The fields of \<^verbatim>\<open>Stream\<close>. The queue is the channel's buffered packets, oldest first,
  and whether the channel has been closed.
\<close>

record Stream =
  messageID :: "64 word"
  streamID :: "64 word"
  buf :: Buffer
  sig :: Signal
  sendSig :: Signal
  recvSig :: Signal
  termSig :: Signal
  queue :: "Packet list"
  queue_closed :: bool

definition New :: "64 word \<Rightarrow> Buffer \<Rightarrow> Stream" where
  "New sid b =
     \<lparr>messageID = 0, streamID = sid, buf = b,
      sig = NewSignal, sendSig = NewSignal, recvSig = NewSignal, termSig = NewSignal,
      queue = [], queue_closed = False\<rparr>"

text \<open>\<^verbatim>\<open>atomic.AddUint64(&s.messageID, 1)\<close> returns the new value; the addition wraps.\<close>

definition nextPid :: "Stream \<Rightarrow> PacketID \<times> Stream" where
  "nextPid s =
     (let m = messageID s + 1
      in (\<lparr>StreamID = streamID s, MessageID = m\<rparr>, s\<lparr>messageID := m\<rparr>))"

definition pollSend :: "Stream \<Rightarrow> error option \<times> bool" where
  "pollSend s =
     (if snd (Signal_Get (sig s)) then (fst (Signal_Get (sig s)), False)
      else if snd (Signal_Get (termSig s)) then (fst (Signal_Get (termSig s)), False)
      else if snd (Signal_Get (sendSig s)) then (fst (Signal_Get (sendSig s)), True)
      else (None, False))"

text \<open>\<^verbatim>\<open>s.buf.Write\<close> and \<^verbatim>\<open>s.buf.Flush\<close> on the stream's state.\<close>

definition buf_Write :: "Packet \<Rightarrow> Stream \<Rightarrow> error option \<times> Stream" where
  "buf_Write pkt s = (case Buffer_Write pkt (buf s) of (r, b) \<Rightarrow> (r, s\<lparr>buf := b\<rparr>))"

definition buf_Flush :: "Stream \<Rightarrow> error option \<times> Stream" where
  "buf_Flush s = (case Buffer_Flush (buf s) of (r, b) \<Rightarrow> (r, s\<lparr>buf := b\<rparr>))"

definition wireSendFlush :: "nat \<Rightarrow> PayloadKind \<Rightarrow> string \<Rightarrow> Stream \<Rightarrow> error option \<times> Stream" where
  "wireSendFlush mps kind data s =
     (case nextPid s of (pid, s1) \<Rightarrow>
        (case Split mps kind pid data buf_Write s1 of
           (Some e, s2) \<Rightarrow> (Some e, s2)
         | (None, s2) \<Rightarrow> buf_Flush s2))"

text \<open>The callback \<^verbatim>\<open>RawSend\<close> hands to \<^verbatim>\<open>Split\<close>: poll, then write.\<close>

definition send_cb :: "Packet \<Rightarrow> Stream \<Rightarrow> error option \<times> Stream" where
  "send_cb pkt s =
     (case fst (pollSend s) of
        Some e \<Rightarrow> (Some e, s)
      | None \<Rightarrow> buf_Write pkt s)"

definition RawSend :: "nat \<Rightarrow> PayloadKind \<Rightarrow> string \<Rightarrow> Stream \<Rightarrow> error option \<times> Stream" where
  "RawSend mps kind data s =
     (case nextPid s of (pid, s1) \<Rightarrow>
        (case Split mps kind pid data send_cb s1 of
           (Some e, s2) \<Rightarrow> (Some e, s2\<lparr>sig := Signal_Set (Some e) (sig s2)\<rparr>)
         | (None, s2) \<Rightarrow> (None, s2)))"

definition RawFlush :: "Stream \<Rightarrow> error option \<times> Stream" where
  "RawFlush s =
     (case fst (pollSend s) of
        Some e \<Rightarrow> (Some e, s)
      | None \<Rightarrow>
          (case buf_Flush s of
             (Some e, s1) \<Rightarrow> (Some e, s1\<lparr>sig := Signal_Set (Some e) (sig s1)\<rparr>)
           | (None, s1) \<Rightarrow> (None, s1)))"

text \<open>
  The \<^verbatim>\<open>select\<close> of \<^verbatim>\<open>RawRecv\<close>, evaluated on a state: one entry for each case that
  is ready there (Go picks any of them), the empty list when none is and the caller stays
  blocked. The signal's channel is ready once the signal is set; the queue is ready when
  it holds a packet, or is closed and drained (\<^verbatim>\<open>ok\<close> false, \<^verbatim>\<open>io.EOF\<close>).
\<close>

definition select_recv :: "Stream \<Rightarrow> ((Packet option \<times> error option) \<times> Stream) list" where
  "select_recv s =
     (if is_set (sig s) then [((None, Signal_Err (sig s)), s)] else []) @
     (case queue s of
        p # ps \<Rightarrow> [((Some p, None), s\<lparr>queue := ps\<rparr>)]
      | [] \<Rightarrow> if queue_closed s then [((None, Some EOF), s)] else [])"

definition RawRecv :: "Stream \<Rightarrow> ((Packet option \<times> error option) \<times> Stream) list" where
  "RawRecv s =
     (if snd (Signal_Get (sig s)) then [((None, fst (Signal_Get (sig s))), s)]
      else select_recv s)"

text \<open>
  \<^verbatim>\<open>RawError\<close> and \<^verbatim>\<open>RawCancel\<close> return nothing. \<^verbatim>\<open>err.Error()\<close> on a nil error
  panics (the first component of the result); the deferred \<^verbatim>\<open>Set\<close> runs all the same.
\<close>

definition RawError :: "nat \<Rightarrow> error option \<Rightarrow> Stream \<Rightarrow> bool \<times> Stream" where
  "RawError mps e s =
     (case (if \<not> snd (Signal_Get (termSig s))
            then (case e of
                    None \<Rightarrow> (True, s)
                  | Some x \<Rightarrow> (False, snd (wireSendFlush mps PayloadKind_Error (Error_text x) s)))
            else (False, s)) of
        (panicked, s1) \<Rightarrow>
          (panicked,
           s1\<lparr>termSig := Signal_Set (Some (DrpcError ''stream terminated'')) (termSig s1)\<rparr>))"

definition RawCancel :: "nat \<Rightarrow> Stream \<Rightarrow> Stream" where
  "RawCancel mps s =
     (let s1 = (if \<not> snd (Signal_Get (termSig s))
                then snd (wireSendFlush mps PayloadKind_Cancel [] s) else s);
          s2 = s1\<lparr>sig := Signal_Set (Some ContextCanceled) (sig s1)\<rparr>
      in s2\<lparr>termSig := Signal_Set (Some (DrpcError ''stream terminated'')) (termSig s2)\<rparr>)"

definition CloseSend :: "nat \<Rightarrow> Stream \<Rightarrow> error option \<times> Stream" where
  "CloseSend mps s =
     (case (case pollSend s of
              (e, sendClosed) \<Rightarrow>
                if sendClosed then (None, s)
                else if e \<noteq> None then (e, s)
                else wireSendFlush mps PayloadKind_CloseSend [] s) of
        (r, s1) \<Rightarrow>
          (r, s1\<lparr>sendSig := Signal_Set (Some (DrpcError ''send after CloseSend'')) (sendSig s1)\<rparr>))"

definition Close :: "nat \<Rightarrow> Stream \<Rightarrow> error option \<times> Stream" where
  "Close mps s =
     (case (case pollSend s of
              (e, sendClosed) \<Rightarrow>
                if e \<noteq> None \<and> \<not> sendClosed then (None, s)
                else wireSendFlush mps PayloadKind_CloseSend [] s) of
        (r, s1) \<Rightarrow>
          (let s2 = s1\<lparr>sig := Signal_Set (Some (DrpcError ''stream closed'')) (sig s1)\<rparr>;
               s3 = s2\<lparr>termSig := Signal_Set (Some (DrpcError ''stream terminated'')) (termSig s2)\<rparr>
           in (r, s3\<lparr>sendSig := Signal_Set (Some (DrpcError ''send after CloseSend'')) (sendSig s3)\<rparr>)))"

subsection \<open>Runs\<close>

text \<open>
  A run is a list of calls on one stream. A blocked \<^verbatim>\<open>RawRecv\<close> leaves the state as
  it is; on entry of \<^verbatim>\<open>RawRecv\<close> with the signal unset at most one case of the
  \<^verbatim>\<open>select\<close> is ready, so taking the first is no choice. After a panic in
  \<^verbatim>\<open>RawError\<close> the run goes on from the state the deferred calls left.
\<close>

datatype op =
  Op_RawSend PayloadKind string | Op_RawFlush | Op_RawRecv | Op_RawError "error option"
| Op_RawCancel | Op_CloseSend | Op_Close

fun exec :: "nat \<Rightarrow> op \<Rightarrow> Stream \<Rightarrow> Stream" where
  "exec mps (Op_RawSend k d) s = snd (RawSend mps k d s)"
| "exec mps Op_RawFlush s = snd (RawFlush s)"
| "exec mps Op_RawRecv s = (case RawRecv s of [] \<Rightarrow> s | x # _ \<Rightarrow> snd x)"
| "exec mps (Op_RawError e) s = snd (RawError mps e s)"
| "exec mps Op_RawCancel s = RawCancel mps s"
| "exec mps Op_CloseSend s = snd (CloseSend mps s)"
| "exec mps Op_Close s = snd (Close mps s)"

fun run :: "nat \<Rightarrow> op list \<Rightarrow> Stream \<Rightarrow> Stream" where
  "run mps [] s = s"
| "run mps (x # xs) s = run mps xs (exec mps x s)"



definition emitted :: "nat \<Rightarrow> op \<Rightarrow> Stream \<Rightarrow> wevent list" where
  "emitted mps x s = drop (length (log (buf s))) (log (buf (exec mps x s)))"



text \<open>A writer that never fails and has seen no call yet.\<close>

definition ok_buffer :: Buffer where
  "ok_buffer = \<lparr>log = [], outcome = (\<lambda>_. None)\<rparr>"

text \<open>
  Two states agree on everything a method reads but the message counter and the log.
\<close>

definition same_sigs :: "Stream \<Rightarrow> Stream \<Rightarrow> bool" where
  "same_sigs s t \<longleftrightarrow> sig t = sig s \<and> sendSig t = sendSig s \<and> termSig t = termSig s \<and> recvSig t = recvSig s \<and>
     streamID t = streamID s \<and> queue t = queue s \<and> queue_closed t = queue_closed s \<and> outcome (buf t) = outcome (buf s)"

text \<open>
  What one call does to the writer's log and the message counter: the log grows, and
  either no packet was written and the counter stands, or the counter moved by one and
  every packet written carries the new identifier.
\<close>

definition step_log :: "Stream \<Rightarrow> Stream \<Rightarrow> bool" where
  "step_log s t \<longleftrightarrow>
     streamID t = streamID s \<and>
     (\<exists>evs. log (buf t) = log (buf s) @ evs \<and>
        ((messageID t = messageID s \<and> (\<forall>p. Wr p \<notin> set evs)) \<or>
         (messageID t = messageID s + 1 \<and>
          (\<forall>p. Wr p \<in> set evs \<longrightarrow> PID p = \<lparr>StreamID = streamID s, MessageID = messageID s + 1\<rparr>))))"

text \<open>The packets among \<open>evs\<close> carry identifiers allocated after state \<open>s\<close>, within \<open>n\<close> allocations.\<close>

definition ids_within :: "Stream \<Rightarrow> nat \<Rightarrow> wevent list \<Rightarrow> bool" where
  "ids_within s n evs \<longleftrightarrow>
     (\<forall>p. Wr p \<in> set evs \<longrightarrow>
        StreamID (PID p) = streamID s \<and> unat (messageID s) < unat (MessageID (PID p)) \<and>
        unat (MessageID (PID p)) \<le> unat (messageID s) + n)"

text \<open>The packet identifiers the writer was handed, in order.\<close>

definition written_ids :: "wevent list \<Rightarrow> PacketID list" where
  "written_ids evs = concat (map (\<lambda>e. case e of Wr p \<Rightarrow> [PID p] | Fl \<Rightarrow> []) evs)"



subsection \<open>Overlapping sends\<close>

text \<open>
  \<^verbatim>\<open>RawSend\<close> holds the send guard for one packet at a time, not for the call: it
  evaluates \<^verbatim>\<open>s.nextPid()\<close> before \<^verbatim>\<open>Split\<close> runs, and locks inside the callback. The
  steps of a call between which other calls can run are: allocating the identifier;
  handing one packet to the writer under the guard (poll, then write); recording the
  error of a failed send in the signal; returning. A \<open>sender\<close> is a call in progress.
  Its fields \<open>s_pid\<close> and \<open>s_handed\<close>, the identifier it allocated and the packets it
  has handed to the writer, are kept for the statement of properties.
\<close>

datatype phase = Waiting | Emitting | Failing error | Returned "error option"

record sender =
  s_kind :: PayloadKind
  s_data :: string
  s_pid :: "PacketID option"
  s_handed :: "Packet list"
  s_todo :: "Packet list"
  s_phase :: phase

definition new_sender :: "PayloadKind \<Rightarrow> string \<Rightarrow> sender" where
  "new_sender k d =
     \<lparr>s_kind = k, s_data = d, s_pid = None, s_handed = [], s_todo = [], s_phase = Waiting\<rparr>"


definition sender_step :: "nat \<Rightarrow> sender \<Rightarrow> Stream \<Rightarrow> sender \<times> Stream" where
  "sender_step mps c s =
     (case s_phase c of
        Waiting \<Rightarrow>
          (case nextPid s of (pid, s1) \<Rightarrow>
             (c\<lparr>s_pid := Some pid, s_todo := frames mps (s_kind c) pid (s_data c),
                s_phase := Emitting\<rparr>, s1))
      | Emitting \<Rightarrow>
          (case s_todo c of
             [] \<Rightarrow> (c\<lparr>s_phase := Returned None\<rparr>, s)
           | p # ps \<Rightarrow>
               (case fst (pollSend s) of
                  Some e \<Rightarrow> (c\<lparr>s_phase := Failing e\<rparr>, s)
                | None \<Rightarrow>
                    (case buf_Write p s of
                       (r, s1) \<Rightarrow>
                         (c\<lparr>s_handed := s_handed c @ [p], s_todo := ps,
                            s_phase := (case r of None \<Rightarrow> Emitting | Some e \<Rightarrow> Failing e)\<rparr>, s1))))
      | Failing e \<Rightarrow> (c\<lparr>s_phase := Returned (Some e)\<rparr>, s\<lparr>sig := Signal_Set (Some e) (sig s)\<rparr>)
      | Returned r \<Rightarrow> (c, s))"

text \<open>
  A schedule is the list of the senders' turns; a turn of a sender that has returned
  changes nothing.
\<close>

fun sched_step :: "nat \<Rightarrow> nat \<Rightarrow> sender list \<times> Stream \<Rightarrow> sender list \<times> Stream" where
  "sched_step mps i (cs, s) =
     (if i < length cs
      then (case sender_step mps (cs ! i) s of (c, t) \<Rightarrow> (cs[i := c], t))
      else (cs, s))"

fun run_sched :: "nat \<Rightarrow> nat list \<Rightarrow> sender list \<times> Stream \<Rightarrow> sender list \<times> Stream" where
  "run_sched mps [] cf = cf"
| "run_sched mps (i # is) cf = run_sched mps is (sched_step mps i cf)"

text \<open>The message ids the writer has been handed, in order.\<close>

definition writer_ids :: "Stream \<Rightarrow> 64 word list" where
  "writer_ids s = map MessageID (written_ids (log (buf s)))"



text \<open>A writer whose first call fails and whose later calls succeed.\<close>

definition flush_fails :: Buffer where
  "flush_fails = \<lparr>log = [], outcome = (\<lambda>n. if n = 0 then Some (OtherError ''io'') else None)\<rparr>"

section \<open>Properties of the collaborators and of single calls\<close>

lemma chunks_ne: "chunks n d \<noteq> []"
  by (subst chunks.simps) simp

lemma chunks_Nil: "chunks n [] = [[]]"
  by (subst chunks.simps) simp

lemma frames_ne: "frames mps k pid d \<noteq> []"
  by (simp add: frames_def chunks_ne)

lemma frames_Nil: "frames mps k pid [] = [\<lparr>PID = pid, Kind = k, Data = []\<rparr>]"
  by (simp add: frames_def chunks_Nil)

lemma frames_PID: "p \<in> set (frames mps k pid d) \<Longrightarrow> PID p = pid \<and> Kind p = k"
  by (auto simp: frames_def)

lemma Signal_Set_is_set: "is_set (Signal_Set e g)"
  by (simp add: Signal_Set_def)

lemma Signal_Set_idem: "is_set g \<Longrightarrow> Signal_Set e g = g"
  by (simp add: Signal_Set_def)

lemma Signal_Set_unset: "\<not> is_set g \<Longrightarrow> Signal_Set e g = \<lparr>is_set = True, err = e\<rparr>"
  by (simp add: Signal_Set_def)

lemma Signal_Get_snd: "snd (Signal_Get g) = is_set g"
  by (simp add: Signal_Get_def)

lemma Signal_Get_fst: "fst (Signal_Get g) = (if is_set g then err g else None)"
  by (simp add: Signal_Get_def)

lemma Split_emit_write:
  "Split_emit buf_Write ps s = (r, t) \<Longrightarrow>
     same_sigs s t \<and> messageID t = messageID s \<and>
     (\<exists>k \<le> length ps. log (buf t) = log (buf s) @ map Wr (take k ps) \<and> (r = None \<longrightarrow> k = length ps) \<and> (ps \<noteq> [] \<longrightarrow> 0 < k))"
proof (induction ps arbitrary: s)
  case Nil
  then show ?case by (simp add: same_sigs_def)
next
  case (Cons p ps)
  obtain r1 s1 where w: "buf_Write p s = (r1, s1)" by (cases "buf_Write p s")
  then have s1: "same_sigs s s1" "messageID s1 = messageID s" "log (buf s1) = log (buf s) @ [Wr p]"
    by (auto simp: buf_Write_def Buffer_Write_def same_sigs_def)
  show ?case
  proof (cases r1)
    case None
    with Cons.prems w have "Split_emit buf_Write ps s1 = (r, t)" by simp
    from Cons.IH [OF this] obtain k where k: "same_sigs s1 t" "messageID t = messageID s1"
      "k \<le> length ps" "log (buf t) = log (buf s1) @ map Wr (take k ps)" "r = None \<longrightarrow> k = length ps"
      by blast
    have "same_sigs s t" using s1(1) k(1) by (simp add: same_sigs_def)
    moreover have "log (buf t) = log (buf s) @ map Wr (take (Suc k) (p # ps))"
      using k(4) s1(3) by simp
    ultimately show ?thesis using k s1(2)
      by (intro conjI exI [of _ "Suc k"]) auto
  next
    case (Some e)
    with Cons.prems w have "r = Some e" "t = s1" by auto
    then show ?thesis using s1
      by (intro conjI exI [of _ "Suc 0"]) auto
  qed
qed


lemma pollSend_same: "same_sigs s t \<Longrightarrow> pollSend t = pollSend s"
  by (simp add: pollSend_def same_sigs_def)

lemma same_sigs_refl: "same_sigs s s"
  by (simp add: same_sigs_def)

lemma same_sigs_trans: "same_sigs s t \<Longrightarrow> same_sigs t u \<Longrightarrow> same_sigs s u"
  by (simp add: same_sigs_def)

lemma buf_Write_step:
  "buf_Write p s = (r, t) \<Longrightarrow>
     same_sigs s t \<and> messageID t = messageID s \<and> log (buf t) = log (buf s) @ [Wr p] \<and>
     r = outcome (buf s) (length (log (buf s)))"
  by (auto simp: buf_Write_def Buffer_Write_def same_sigs_def)

lemma buf_Flush_step:
  "buf_Flush s = (r, t) \<Longrightarrow>
     same_sigs s t \<and> messageID t = messageID s \<and> log (buf t) = log (buf s) @ [Fl] \<and>
     r = outcome (buf s) (length (log (buf s)))"
  by (auto simp: buf_Flush_def Buffer_Flush_def same_sigs_def)

lemma Split_emit_send:
  "Split_emit send_cb ps s = (r, t) \<Longrightarrow>
     same_sigs s t \<and> messageID t = messageID s \<and>
     (\<exists>k \<le> length ps. log (buf t) = log (buf s) @ map Wr (take k ps) \<and> (r = None \<longrightarrow> k = length ps))"
proof (induction ps arbitrary: s)
  case Nil
  then show ?case by (simp add: same_sigs_def)
next
  case (Cons p ps)
  show ?case
  proof (cases "fst (pollSend s)")
    case (Some e)
    then have "send_cb p s = (Some e, s)" by (simp add: send_cb_def)
    with Cons.prems have "r = Some e" "t = s" by auto
    then show ?thesis by (intro conjI exI [of _ 0]) (auto simp: same_sigs_refl)
  next
    case None
    obtain r1 s1 where w: "buf_Write p s = (r1, s1)" by (cases "buf_Write p s")
    note s1 = buf_Write_step [OF w]
    have cb: "send_cb p s = (r1, s1)" using None w by (simp add: send_cb_def)
    show ?thesis
    proof (cases r1)
      case None
      with Cons.prems cb have "Split_emit send_cb ps s1 = (r, t)"
        by simp
      from Cons.IH [OF this] obtain k where k: "same_sigs s1 t" "messageID t = messageID s1"
        "k \<le> length ps" "log (buf t) = log (buf s1) @ map Wr (take k ps)" "r = None \<longrightarrow> k = length ps"
        by blast
      have "same_sigs s t" using s1 k(1) same_sigs_trans by blast
      moreover have "log (buf t) = log (buf s) @ map Wr (take (Suc k) (p # ps))"
        using k(4) s1 by simp
      ultimately show ?thesis using k s1
        by (intro conjI exI [of _ "Suc k"]) auto
    next
      case (Some e)
      with Cons.prems cb have "r = Some e" "t = s1"
        by auto
      then show ?thesis using s1
        by (intro conjI exI [of _ "Suc 0"]) auto
    qed
  qed
qed

lemma Split_emit_send_denied:
  "fst (pollSend s) = Some e \<Longrightarrow> ps \<noteq> [] \<Longrightarrow> Split_emit send_cb ps s = (Some e, s)"
  by (cases ps) (simp_all add: send_cb_def)

lemma nextPid_step:
  "nextPid s = (pid, t) \<Longrightarrow>
     pid = \<lparr>StreamID = streamID s, MessageID = messageID s + 1\<rparr> \<and> same_sigs s t \<and>
     messageID t = messageID s + 1 \<and> log (buf t) = log (buf s)"
  by (auto simp: nextPid_def Let_def same_sigs_def)

lemma wireSendFlush_step:
  assumes "wireSendFlush mps k d s = (r, t)"
  shows "same_sigs s t \<and> messageID t = messageID s + 1 \<and>
     (\<exists>evs. log (buf t) = log (buf s) @ evs \<and> (\<exists>p. Wr p \<in> set evs) \<and>
        (\<forall>p. Wr p \<in> set evs \<longrightarrow> PID p = \<lparr>StreamID = streamID s, MessageID = messageID s + 1\<rparr> \<and> Kind p = k))"
proof -
  let ?pid = "\<lparr>StreamID = streamID s, MessageID = messageID s + 1\<rparr>"
  obtain s1 where n: "nextPid s = (?pid, s1)" by (simp add: nextPid_def Let_def)
  note n1 = nextPid_step [OF n]
  let ?fr = "frames mps k ?pid d"
  obtain r2 s2 where sp: "Split_emit buf_Write ?fr s1 = (r2, s2)"
    by (cases "Split_emit buf_Write ?fr s1")
  have fne: "?fr \<noteq> []" by (rule frames_ne)
  from Split_emit_write [OF sp]
  have A: "same_sigs s1 s2" "messageID s2 = messageID s1"
    and B: "\<exists>j \<le> length ?fr. log (buf s2) = log (buf s1) @ map Wr (take j ?fr) \<and>
              (r2 = None \<longrightarrow> j = length ?fr) \<and> (?fr \<noteq> [] \<longrightarrow> 0 < j)"
    by simp_all
  from B obtain j where j: "j \<le> length ?fr"
    "log (buf s2) = log (buf s1) @ map Wr (take j ?fr)" "?fr \<noteq> [] \<longrightarrow> 0 < j"
    by (elim exE conjE)
  let ?ws = "map Wr (take j ?fr)"
  obtain f fs where ffs: "?fr = f # fs" using fne by (cases ?fr) auto
  obtain j' where j': "j = Suc j'" using j(3) fne by (cases j) auto
  have ne: "Wr f \<in> set ?ws" by (simp add: ffs j')
  have ids: "PID p = ?pid \<and> Kind p = k" if "p \<in> set (take j ?fr)" for p
  proof -
    from that have "p \<in> set ?fr" by (rule in_set_takeD)
    then show ?thesis by (rule frames_PID)
  qed
  have idsA: "\<forall>p. Wr p \<in> set ?ws \<longrightarrow> PID p = ?pid \<and> Kind p = k"
  proof (intro allI impI)
    fix p assume "Wr p \<in> set ?ws"
    then have "p \<in> set (take j ?fr)" by auto
    then show "PID p = ?pid \<and> Kind p = k" by (rule ids)
  qed
  have idsB: "\<forall>p. Wr p \<in> set (?ws @ [Fl]) \<longrightarrow> PID p = ?pid \<and> Kind p = k"
  proof (intro allI impI)
    fix p assume "Wr p \<in> set (?ws @ [Fl])"
    then have "p \<in> set (take j ?fr)" by auto
    then show "PID p = ?pid \<and> Kind p = k" by (rule ids)
  qed
  have ss2: "same_sigs s s2" using n1 A(1) same_sigs_trans by blast
  have m2: "messageID s2 = messageID s + 1" using n1 A(2) by simp
  have l2: "log (buf s2) = log (buf s) @ ?ws" using n1 j(2) by simp
  show ?thesis
  proof (cases r2)
    case (Some e)
    with assms n sp have ts: "t = s2" by (simp add: wireSendFlush_def Split_def)
    have "log (buf t) = log (buf s) @ ?ws \<and> (\<exists>p. Wr p \<in> set ?ws) \<and>
        (\<forall>p. Wr p \<in> set ?ws \<longrightarrow> PID p = ?pid \<and> Kind p = k)"
      using l2 ne idsA ts by blast
    then have "\<exists>evs. log (buf t) = log (buf s) @ evs \<and> (\<exists>p. Wr p \<in> set evs) \<and>
        (\<forall>p. Wr p \<in> set evs \<longrightarrow> PID p = ?pid \<and> Kind p = k)"
      by (rule exI)
    then show ?thesis using ss2 m2 ts by blast
  next
    case None
    with assms n sp have f: "buf_Flush s2 = (r, t)" by (simp add: wireSendFlush_def Split_def)
    note f1 = buf_Flush_step [OF f]
    have "log (buf t) = log (buf s) @ (?ws @ [Fl])" using f1 l2 by simp
    moreover have "\<exists>p. Wr p \<in> set (?ws @ [Fl])" using ne by auto
    ultimately have "log (buf t) = log (buf s) @ (?ws @ [Fl]) \<and> (\<exists>p. Wr p \<in> set (?ws @ [Fl])) \<and>
        (\<forall>p. Wr p \<in> set (?ws @ [Fl]) \<longrightarrow> PID p = ?pid \<and> Kind p = k)"
      using idsB by blast
    then have "\<exists>evs. log (buf t) = log (buf s) @ evs \<and> (\<exists>p. Wr p \<in> set evs) \<and>
        (\<forall>p. Wr p \<in> set evs \<longrightarrow> PID p = ?pid \<and> Kind p = k)"
      by (rule exI)
    moreover have "same_sigs s t" using ss2 f1 same_sigs_trans by blast
    moreover have "messageID t = messageID s + 1" using f1 m2 by simp
    ultimately show ?thesis by blast
  qed
qed

lemma wireSendFlush_Nil:
  "wireSendFlush mps k [] s =
     (let p = \<lparr>PID = \<lparr>StreamID = streamID s, MessageID = messageID s + 1\<rparr>, Kind = k, Data = []\<rparr>;
          n = length (log (buf s))
      in case outcome (buf s) n of
           Some e \<Rightarrow> (Some e, s\<lparr>messageID := messageID s + 1, buf := (buf s)\<lparr>log := log (buf s) @ [Wr p]\<rparr>\<rparr>)
         | None \<Rightarrow> (outcome (buf s) (Suc n),
                     s\<lparr>messageID := messageID s + 1, buf := (buf s)\<lparr>log := log (buf s) @ [Wr p, Fl]\<rparr>\<rparr>))"
  by (simp add: wireSendFlush_def Split_def frames_Nil nextPid_def Let_def buf_Write_def
      Buffer_Write_def buf_Flush_def Buffer_Flush_def split: option.splits)

lemma RawSend_step:
  assumes "RawSend mps k d s = (r, t)"
  shows "messageID t = messageID s + 1 \<and> streamID t = streamID s \<and> termSig t = termSig s \<and>
     sendSig t = sendSig s \<and> recvSig t = recvSig s \<and> queue t = queue s \<and> queue_closed t = queue_closed s \<and>
     outcome (buf t) = outcome (buf s) \<and>
     sig t = (case r of None \<Rightarrow> sig s | Some e \<Rightarrow> Signal_Set (Some e) (sig s)) \<and>
     (\<exists>j \<le> length (frames mps k \<lparr>StreamID = streamID s, MessageID = messageID s + 1\<rparr> d).
        log (buf t) = log (buf s) @ map Wr (take j (frames mps k \<lparr>StreamID = streamID s, MessageID = messageID s + 1\<rparr> d)) \<and>
        (r = None \<longrightarrow> j = length (frames mps k \<lparr>StreamID = streamID s, MessageID = messageID s + 1\<rparr> d)))"
proof -
  let ?pid = "\<lparr>StreamID = streamID s, MessageID = messageID s + 1\<rparr>"
  obtain s1 where n: "nextPid s = (?pid, s1)" by (simp add: nextPid_def Let_def)
  note n1 = nextPid_step [OF n]
  obtain r2 s2 where sp: "Split_emit send_cb (frames mps k ?pid d) s1 = (r2, s2)"
    by (cases "Split_emit send_cb (frames mps k ?pid d) s1")
  from Split_emit_send [OF sp]
  obtain j where j: "same_sigs s1 s2" "messageID s2 = messageID s1" "j \<le> length (frames mps k ?pid d)"
    "log (buf s2) = log (buf s1) @ map Wr (take j (frames mps k ?pid d))"
    "r2 = None \<longrightarrow> j = length (frames mps k ?pid d)"
    by blast
  have ss: "same_sigs s s2" using n1 j(1) same_sigs_trans by blast
  have rt: "r = r2" "t = (case r2 of None \<Rightarrow> s2 | Some e \<Rightarrow> s2\<lparr>sig := Signal_Set (Some e) (sig s2)\<rparr>)"
    using assms n sp by (auto simp: RawSend_def Split_def split: option.splits)
  show ?thesis
    using ss j n1 rt by (cases r2) (auto simp: same_sigs_def)
qed

lemma RawFlush_step:
  assumes "RawFlush s = (r, t)"
  shows "messageID t = messageID s \<and> streamID t = streamID s \<and> termSig t = termSig s \<and>
     sendSig t = sendSig s \<and> recvSig t = recvSig s \<and> queue t = queue s \<and> queue_closed t = queue_closed s \<and>
     outcome (buf t) = outcome (buf s) \<and>
     (sig t = sig s \<or> (\<exists>e. sig t = Signal_Set (Some e) (sig s))) \<and>
     (log (buf t) = log (buf s) \<or> log (buf t) = log (buf s) @ [Fl])"
proof (cases "fst (pollSend s)")
  case (Some e)
  with assms have "t = s" by (simp add: RawFlush_def)
  then show ?thesis by simp
next
  case None
  obtain r1 s1 where f: "buf_Flush s = (r1, s1)" by (cases "buf_Flush s")
  note f1 = buf_Flush_step [OF f]
  have ss: "same_sigs s s1" "messageID s1 = messageID s" "log (buf s1) = log (buf s) @ [Fl]"
    using f1 by simp_all
  show ?thesis
  proof (cases r1)
    case None
    with assms \<open>fst (pollSend s) = None\<close> f have "t = s1" by (simp add: RawFlush_def)
    then show ?thesis using ss by (simp add: same_sigs_def)
  next
    case (Some e)
    with assms \<open>fst (pollSend s) = None\<close> f
    have "t = s1\<lparr>sig := Signal_Set (Some e) (sig s1)\<rparr>" by (auto simp: RawFlush_def)
    then show ?thesis using ss by (auto simp: same_sigs_def)
  qed
qed

lemma RawRecv_step:
  assumes "(x, t) \<in> set (RawRecv s)"
  shows "messageID t = messageID s \<and> streamID t = streamID s \<and> termSig t = termSig s \<and>
     sendSig t = sendSig s \<and> sig t = sig s \<and> buf t = buf s"
  using assms by (auto simp: RawRecv_def select_recv_def split: if_splits list.splits)

lemma RawError_step:
  assumes "RawError mps e s = (p, t)"
  shows "sig t = sig s \<and> sendSig t = sendSig s \<and> streamID t = streamID s \<and>
     outcome (buf t) = outcome (buf s) \<and>
     termSig t = Signal_Set (Some (DrpcError ''stream terminated'')) (termSig s) \<and>
     (is_set (termSig s) \<longrightarrow> buf t = buf s \<and> messageID t = messageID s)"
proof (cases "is_set (termSig s)")
  case True
  with assms show ?thesis by (auto simp: RawError_def Signal_Get_snd)
next
  case False
  show ?thesis
  proof (cases e)
    case None
    with assms False show ?thesis by (auto simp: RawError_def Signal_Get_snd)
  next
    case (Some x)
    obtain r1 s1 where w: "wireSendFlush mps PayloadKind_Error (Error_text x) s = (r1, s1)"
      by (cases "wireSendFlush mps PayloadKind_Error (Error_text x) s")
    from wireSendFlush_step [OF w] have ss: "same_sigs s s1" by simp
    have "t = s1\<lparr>termSig := Signal_Set (Some (DrpcError ''stream terminated'')) (termSig s1)\<rparr>"
      using assms False Some w by (auto simp: RawError_def Signal_Get_snd)
    then show ?thesis using ss False by (auto simp: same_sigs_def)
  qed
qed

lemma RawCancel_step:
  assumes "RawCancel mps s = t"
  shows "sig t = Signal_Set (Some ContextCanceled) (sig s) \<and> sendSig t = sendSig s \<and>
     streamID t = streamID s \<and> outcome (buf t) = outcome (buf s) \<and>
     termSig t = Signal_Set (Some (DrpcError ''stream terminated'')) (termSig s) \<and>
     (is_set (termSig s) \<longrightarrow> buf t = buf s \<and> messageID t = messageID s)"
proof (cases "is_set (termSig s)")
  case True
  with assms show ?thesis by (auto simp: RawCancel_def Signal_Get_snd Let_def)
next
  case False
  obtain r1 s1 where w: "wireSendFlush mps PayloadKind_Cancel [] s = (r1, s1)"
    by (cases "wireSendFlush mps PayloadKind_Cancel [] s")
  from wireSendFlush_step [OF w] have ss: "same_sigs s s1" by simp
  have "t = s1\<lparr>sig := Signal_Set (Some ContextCanceled) (sig s1),
               termSig := Signal_Set (Some (DrpcError ''stream terminated'')) (termSig s1)\<rparr>"
    using assms False w by (auto simp: RawCancel_def Signal_Get_snd Let_def)
  then show ?thesis using ss False by (auto simp: same_sigs_def)
qed

lemma CloseSend_step:
  assumes "CloseSend mps s = (r, t)"
  shows "sig t = sig s \<and> termSig t = termSig s \<and> streamID t = streamID s \<and>
     outcome (buf t) = outcome (buf s) \<and>
     sendSig t = Signal_Set (Some (DrpcError ''send after CloseSend'')) (sendSig s) \<and>
     (snd (pollSend s) \<or> fst (pollSend s) \<noteq> None \<longrightarrow> buf t = buf s \<and> messageID t = messageID s)"
proof (cases "snd (pollSend s) \<or> fst (pollSend s) \<noteq> None")
  case True
  with assms show ?thesis by (auto simp: CloseSend_def split: prod.splits if_splits)
next
  case False
  obtain r1 s1 where w: "wireSendFlush mps PayloadKind_CloseSend [] s = (r1, s1)"
    by (cases "wireSendFlush mps PayloadKind_CloseSend [] s")
  from wireSendFlush_step [OF w] have ss: "same_sigs s s1" by simp
  have "t = s1\<lparr>sendSig := Signal_Set (Some (DrpcError ''send after CloseSend'')) (sendSig s1)\<rparr>"
    using assms False w by (auto simp: CloseSend_def split: prod.splits if_splits)
  then show ?thesis using ss False by (auto simp: same_sigs_def)
qed

lemma Close_step:
  assumes "Close mps s = (r, t)"
  shows "sig t = Signal_Set (Some (DrpcError ''stream closed'')) (sig s) \<and>
     termSig t = Signal_Set (Some (DrpcError ''stream terminated'')) (termSig s) \<and>
     sendSig t = Signal_Set (Some (DrpcError ''send after CloseSend'')) (sendSig s) \<and>
     streamID t = streamID s \<and> outcome (buf t) = outcome (buf s) \<and>
     (fst (pollSend s) \<noteq> None \<and> \<not> snd (pollSend s) \<longrightarrow>
        r = None \<and> buf t = buf s \<and> messageID t = messageID s)"
proof (cases "fst (pollSend s) \<noteq> None \<and> \<not> snd (pollSend s)")
  case True
  with assms show ?thesis by (auto simp: Close_def Let_def split: prod.splits if_splits)
next
  case False
  obtain r1 s1 where w: "wireSendFlush mps PayloadKind_CloseSend [] s = (r1, s1)"
    by (cases "wireSendFlush mps PayloadKind_CloseSend [] s")
  from wireSendFlush_step [OF w] have ss: "same_sigs s s1" by simp
  have "t = s1\<lparr>sig := Signal_Set (Some (DrpcError ''stream closed'')) (sig s1),
               termSig := Signal_Set (Some (DrpcError ''stream terminated'')) (termSig s1),
               sendSig := Signal_Set (Some (DrpcError ''send after CloseSend'')) (sendSig s1)\<rparr>"
    using assms False w by (auto simp: Close_def Let_def split: prod.splits if_splits)
  then show ?thesis using ss False by (auto simp: same_sigs_def)
qed

section \<open>Invariants of runs\<close>

lemma exec_signals:
  "streamID (exec mps x s) = streamID s \<and> outcome (buf (exec mps x s)) = outcome (buf s) \<and>
   (sig (exec mps x s) = sig s \<or> (\<exists>e. sig (exec mps x s) = Signal_Set (Some e) (sig s))) \<and>
   (termSig (exec mps x s) = termSig s \<or> (\<exists>e. termSig (exec mps x s) = Signal_Set (Some e) (termSig s))) \<and>
   (sendSig (exec mps x s) = sendSig s \<or> (\<exists>e. sendSig (exec mps x s) = Signal_Set (Some e) (sendSig s)))"
proof (cases x)
  case (Op_RawSend k d)
  obtain r t where "RawSend mps k d s = (r, t)" by (cases "RawSend mps k d s")
  from RawSend_step [OF this] this Op_RawSend show ?thesis by (cases r) auto
next
  case Op_RawFlush
  obtain r t where "RawFlush s = (r, t)" by (cases "RawFlush s")
  from RawFlush_step [OF this] this Op_RawFlush show ?thesis by auto
next
  case Op_RawRecv
  show ?thesis
  proof (cases "RawRecv s")
    case Nil
    with Op_RawRecv show ?thesis by simp
  next
    case (Cons y ys)
    then have "(fst y, snd y) \<in> set (RawRecv s)" by simp
    from RawRecv_step [OF this] Cons Op_RawRecv show ?thesis by simp
  qed
next
  case (Op_RawError e)
  obtain p t where "RawError mps e s = (p, t)" by (cases "RawError mps e s")
  from RawError_step [OF this] this Op_RawError show ?thesis by auto
next
  case Op_RawCancel
  from RawCancel_step [OF refl, of mps s] Op_RawCancel show ?thesis by auto
next
  case Op_CloseSend
  obtain r t where "CloseSend mps s = (r, t)" by (cases "CloseSend mps s")
  from CloseSend_step [OF this] this Op_CloseSend show ?thesis by auto
next
  case Op_Close
  obtain r t where "Close mps s = (r, t)" by (cases "Close mps s")
  from Close_step [OF this] this Op_Close show ?thesis by auto
qed

lemma exec_sig_latched: "is_set (sig s) \<Longrightarrow> sig (exec mps x s) = sig s"
  using exec_signals [of mps x s] by (auto simp: Signal_Set_idem)


lemma exec_sendSig_latched: "is_set (sendSig s) \<Longrightarrow> sendSig (exec mps x s) = sendSig s"
  using exec_signals [of mps x s] by (auto simp: Signal_Set_idem)

lemma Signal_Set_err: "is_set g \<longrightarrow> err g \<noteq> None \<Longrightarrow> err (Signal_Set (Some e) g) \<noteq> None"
  by (simp add: Signal_Set_def)







lemma send_cb_poll:
  "send_cb p s = (if fst (pollSend s) \<noteq> None then (fst (pollSend s), s) else buf_Write p s)"
  by (auto simp: send_cb_def split: option.splits)

lemma RawFlush_poll:
  "fst (pollSend s) \<noteq> None \<Longrightarrow> RawFlush s = (fst (pollSend s), s)"
  by (auto simp: RawFlush_def split: option.splits)

lemma pollSend_messageID [simp]: "pollSend (s\<lparr>messageID := m\<rparr>) = pollSend s"
  by (simp add: pollSend_def)

lemma RawSend_denied:
  assumes "fst (pollSend s) = Some e"
  shows "RawSend mps k d s =
           (Some e, s\<lparr>messageID := messageID s + 1, sig := Signal_Set (Some e) (sig s)\<rparr>)"
proof -
  let ?pid = "\<lparr>StreamID = streamID s, MessageID = messageID s + 1\<rparr>"
  let ?s1 = "s\<lparr>messageID := messageID s + 1\<rparr>"
  have n: "nextPid s = (?pid, ?s1)" by (simp add: nextPid_def Let_def)
  have "fst (pollSend ?s1) = Some e" using assms by simp
  then have "Split_emit send_cb (frames mps k ?pid d) ?s1 = (Some e, ?s1)"
    using frames_ne by (rule Split_emit_send_denied)
  then show ?thesis using n by (simp add: RawSend_def Split_def)
qed

lemma run_sig_latched: "is_set (sig s) \<Longrightarrow> sig (run mps xs s) = sig s"
  by (induction xs arbitrary: s) (simp_all add: exec_sig_latched)

lemma CloseSend_fresh:
  assumes "\<not> is_set (sig s)" "\<not> is_set (termSig s)" "\<not> is_set (sendSig s)"
  shows "CloseSend mps s =
     (case wireSendFlush mps PayloadKind_CloseSend [] s of
        (r, s1) \<Rightarrow> (r, s1\<lparr>sendSig := \<lparr>is_set = True, err = Some (DrpcError ''send after CloseSend'')\<rparr>\<rparr>))"
proof -
  obtain r s1 where w: "wireSendFlush mps PayloadKind_CloseSend [] s = (r, s1)"
    by (cases "wireSendFlush mps PayloadKind_CloseSend [] s")
  from wireSendFlush_step [OF w] have "sendSig s1 = sendSig s" by (simp add: same_sigs_def)
  then show ?thesis using assms w
    by (simp add: CloseSend_def pollSend_def Signal_Get_def Signal_Set_def)
qed

lemma CloseSend_again:
  assumes "\<not> is_set (sig t)" "\<not> is_set (termSig t)" "is_set (sendSig t)"
  shows "CloseSend mps t = (None, t)"
  using assms by (simp add: CloseSend_def pollSend_def Signal_Get_def Signal_Set_def)

lemma RawCancel_live:
  assumes "\<not> is_set (termSig s)"
  shows "log (buf (RawCancel mps s)) =
           log (buf s) @
           Wr \<lparr>PID = \<lparr>StreamID = streamID s, MessageID = messageID s + 1\<rparr>,
               Kind = PayloadKind_Cancel, Data = []\<rparr> #
           (if outcome (buf s) (length (log (buf s))) = None then [Fl] else [])"
  using assms
  by (simp add: RawCancel_def Signal_Get_def wireSendFlush_Nil Let_def split: option.splits)

lemma RawRecv_failed: "is_set (sig s) \<Longrightarrow> RawRecv s = [((None, err (sig s)), s)]"
  by (simp add: RawRecv_def Signal_Get_def)


section \<open>Packet identifiers\<close>

lemma step_log_same:
  "buf t = buf s \<Longrightarrow> messageID t = messageID s \<Longrightarrow> streamID t = streamID s \<Longrightarrow> step_log s t"
  by (simp add: step_log_def)

lemma step_log_wire:
  assumes "wireSendFlush mps k d s = (r, s1)"
    and "buf t = buf s1" "messageID t = messageID s1" "streamID t = streamID s1"
  shows "step_log s t"
proof -
  from wireSendFlush_step [OF assms(1)]
  have ss: "same_sigs s s1" and m: "messageID s1 = messageID s + 1"
    and ex: "\<exists>evs. log (buf s1) = log (buf s) @ evs \<and> (\<exists>p. Wr p \<in> set evs) \<and>
        (\<forall>p. Wr p \<in> set evs \<longrightarrow> PID p = \<lparr>StreamID = streamID s, MessageID = messageID s + 1\<rparr> \<and> Kind p = k)"
    by simp_all
  from ex obtain evs where evs: "log (buf s1) = log (buf s) @ evs"
    "\<forall>p. Wr p \<in> set evs \<longrightarrow> PID p = \<lparr>StreamID = streamID s, MessageID = messageID s + 1\<rparr> \<and> Kind p = k"
    by blast
  have "log (buf t) = log (buf s) @ evs \<and> messageID t = messageID s + 1 \<and>
      (\<forall>p. Wr p \<in> set evs \<longrightarrow> PID p = \<lparr>StreamID = streamID s, MessageID = messageID s + 1\<rparr>)"
    using evs assms(2,3) m by simp
  then have "\<exists>evs. log (buf t) = log (buf s) @ evs \<and>
        ((messageID t = messageID s \<and> (\<forall>p. Wr p \<notin> set evs)) \<or>
         (messageID t = messageID s + 1 \<and>
          (\<forall>p. Wr p \<in> set evs \<longrightarrow> PID p = \<lparr>StreamID = streamID s, MessageID = messageID s + 1\<rparr>)))"
    by blast
  moreover have "streamID t = streamID s" using ss assms(4) by (simp add: same_sigs_def)
  ultimately show ?thesis by (simp add: step_log_def)
qed

lemma exec_via_wire:
  "(buf (exec mps x s) = buf s \<and> messageID (exec mps x s) = messageID s \<and>
      streamID (exec mps x s) = streamID s) \<or>
   (\<exists>k d r1 s1. wireSendFlush mps k d s = (r1, s1) \<and> buf (exec mps x s) = buf s1 \<and>
      messageID (exec mps x s) = messageID s1 \<and> streamID (exec mps x s) = streamID s1) \<or>
   (\<exists>k d. x = Op_RawSend k d) \<or> x = Op_RawFlush"
proof (cases x)
  case Op_RawRecv
  then show ?thesis
    by (auto simp: RawRecv_def select_recv_def split: list.splits)
next
  case (Op_RawError e)
  show ?thesis
  proof (cases "is_set (termSig s) \<or> e = None")
    case True
    with Op_RawError show ?thesis by (auto simp: RawError_def Signal_Get_def)
  next
    case False
    then obtain y where y: "e = Some y" by auto
    obtain r1 s1 where w: "wireSendFlush mps PayloadKind_Error (Error_text y) s = (r1, s1)"
      by (cases "wireSendFlush mps PayloadKind_Error (Error_text y) s")
    have "buf (exec mps x s) = buf s1 \<and> messageID (exec mps x s) = messageID s1 \<and>
      streamID (exec mps x s) = streamID s1"
      using Op_RawError False y w by (simp add: RawError_def Signal_Get_def)
    with w show ?thesis by blast
  qed
next
  case Op_RawCancel
  show ?thesis
  proof (cases "is_set (termSig s)")
    case True
    with Op_RawCancel show ?thesis by (simp add: RawCancel_def Signal_Get_def Let_def)
  next
    case False
    obtain r1 s1 where w: "wireSendFlush mps PayloadKind_Cancel [] s = (r1, s1)"
      by (cases "wireSendFlush mps PayloadKind_Cancel [] s")
    have "buf (exec mps x s) = buf s1 \<and> messageID (exec mps x s) = messageID s1 \<and>
      streamID (exec mps x s) = streamID s1"
      using Op_RawCancel False w by (simp add: RawCancel_def Signal_Get_def Let_def)
    with w show ?thesis by blast
  qed
next
  case Op_CloseSend
  obtain r1 s1 where w: "wireSendFlush mps PayloadKind_CloseSend [] s = (r1, s1)"
    by (cases "wireSendFlush mps PayloadKind_CloseSend [] s")
  have "(buf (exec mps x s) = buf s \<and> messageID (exec mps x s) = messageID s \<and>
      streamID (exec mps x s) = streamID s) \<or>
    (buf (exec mps x s) = buf s1 \<and> messageID (exec mps x s) = messageID s1 \<and>
      streamID (exec mps x s) = streamID s1)"
    using Op_CloseSend w by (simp add: CloseSend_def split: prod.splits)
  with w show ?thesis by blast
next
  case Op_Close
  obtain r1 s1 where w: "wireSendFlush mps PayloadKind_CloseSend [] s = (r1, s1)"
    by (cases "wireSendFlush mps PayloadKind_CloseSend [] s")
  have "(buf (exec mps x s) = buf s \<and> messageID (exec mps x s) = messageID s \<and>
      streamID (exec mps x s) = streamID s) \<or>
    (buf (exec mps x s) = buf s1 \<and> messageID (exec mps x s) = messageID s1 \<and>
      streamID (exec mps x s) = streamID s1)"
    using Op_Close w by (simp add: Close_def Let_def split: prod.splits)
  with w show ?thesis by blast
qed simp_all

lemma RawSend_step_log: "step_log s (snd (RawSend mps k d s))"
proof -
  obtain r t where c: "RawSend mps k d s = (r, t)" by (cases "RawSend mps k d s")
  let ?pid = "\<lparr>StreamID = streamID s, MessageID = messageID s + 1\<rparr>"
  let ?fr = "frames mps k ?pid d"
  from RawSend_step [OF c]
  have m: "messageID t = messageID s + 1" and sid: "streamID t = streamID s"
    and ex: "\<exists>j \<le> length ?fr. log (buf t) = log (buf s) @ map Wr (take j ?fr) \<and>
        (r = None \<longrightarrow> j = length ?fr)"
    by simp_all
  from ex obtain j where j: "log (buf t) = log (buf s) @ map Wr (take j ?fr)" by blast
  have ids: "\<forall>p. Wr p \<in> set (map Wr (take j ?fr)) \<longrightarrow> PID p = ?pid"
  proof (intro allI impI)
    fix p assume "Wr p \<in> set (map Wr (take j ?fr))"
    then have "p \<in> set (take j ?fr)" by auto
    then have "p \<in> set ?fr" by (rule in_set_takeD)
    then show "PID p = ?pid" using frames_PID by blast
  qed
  have "log (buf t) = log (buf s) @ map Wr (take j ?fr) \<and> messageID t = messageID s + 1 \<and>
      (\<forall>p. Wr p \<in> set (map Wr (take j ?fr)) \<longrightarrow> PID p = ?pid)"
    using j m ids by blast
  then have "\<exists>evs. log (buf t) = log (buf s) @ evs \<and>
        ((messageID t = messageID s \<and> (\<forall>p. Wr p \<notin> set evs)) \<or>
         (messageID t = messageID s + 1 \<and> (\<forall>p. Wr p \<in> set evs \<longrightarrow> PID p = ?pid)))"
    by blast
  then show ?thesis using sid c by (simp add: step_log_def)
qed

lemma RawFlush_step_log: "step_log s (snd (RawFlush s))"
proof -
  obtain r t where c: "RawFlush s = (r, t)" by (cases "RawFlush s")
  from RawFlush_step [OF c]
  have m: "messageID t = messageID s" and sid: "streamID t = streamID s"
    and l: "log (buf t) = log (buf s) \<or> log (buf t) = log (buf s) @ [Fl]"
    by simp_all
  from l have "\<exists>evs. log (buf t) = log (buf s) @ evs \<and> (\<forall>p. Wr p \<notin> set evs)"
  proof
    assume "log (buf t) = log (buf s)"
    then have "log (buf t) = log (buf s) @ [] \<and> (\<forall>p. Wr p \<notin> set [])" by simp
    then show ?thesis by (rule exI)
  next
    assume "log (buf t) = log (buf s) @ [Fl]"
    then have "log (buf t) = log (buf s) @ [Fl] \<and> (\<forall>p. Wr p \<notin> set [Fl])" by simp
    then show ?thesis by (rule exI)
  qed
  then show ?thesis using m sid c by (auto simp: step_log_def)
qed

lemma exec_step_log: "step_log s (exec mps x s)"
  using exec_via_wire [of mps x s]
  by (auto intro: step_log_same step_log_wire RawSend_step_log RawFlush_step_log)

lemma unat_succ: "unat (w :: 64 word) + 1 < 2 ^ 64 \<Longrightarrow> unat (w + 1) = unat w + 1"
  using unat_add_lem [of w 1] by simp

lemma run_ids:
  "unat (messageID s) + length xs < 2 ^ 64 \<Longrightarrow>
     streamID (run mps xs s) = streamID s \<and>
     unat (messageID (run mps xs s)) \<le> unat (messageID s) + length xs \<and>
     (\<exists>evs. log (buf (run mps xs s)) = log (buf s) @ evs \<and> ids_within s (length xs) evs)"
proof (induction xs arbitrary: s)
  case Nil
  have "log (buf s) = log (buf s) @ [] \<and> ids_within s 0 []" by (simp add: ids_within_def)
  then have "\<exists>evs. log (buf s) = log (buf s) @ evs \<and> ids_within s 0 evs" by (rule exI)
  then show ?case by simp
next
  case (Cons x xs)
  let ?t = "exec mps x s"
  let ?n = "length xs"
  from exec_step_log [of s mps x] obtain evs1 where
    sid: "streamID ?t = streamID s" and l1: "log (buf ?t) = log (buf s) @ evs1" and
    alt: "(messageID ?t = messageID s \<and> (\<forall>p. Wr p \<notin> set evs1)) \<or>
          (messageID ?t = messageID s + 1 \<and>
           (\<forall>p. Wr p \<in> set evs1 \<longrightarrow> PID p = \<lparr>StreamID = streamID s, MessageID = messageID s + 1\<rparr>))"
    unfolding step_log_def by blast
  have nw: "unat (messageID s) + 1 < 2 ^ 64" using Cons.prems by simp
  have su: "unat (messageID s + 1) = unat (messageID s) + 1" using nw by (rule unat_succ)
  have mt: "unat (messageID s) \<le> unat (messageID ?t) \<and> unat (messageID ?t) \<le> unat (messageID s) + 1"
    using alt su by auto
  have w1: "ids_within s (Suc ?n) evs1"
    unfolding ids_within_def
  proof (intro allI impI)
    fix p assume p: "Wr p \<in> set evs1"
    with alt have "PID p = \<lparr>StreamID = streamID s, MessageID = messageID s + 1\<rparr>" by blast
    then show "StreamID (PID p) = streamID s \<and> unat (messageID s) < unat (MessageID (PID p)) \<and>
        unat (MessageID (PID p)) \<le> unat (messageID s) + Suc ?n"
      using su by simp
  qed
  have "unat (messageID ?t) + ?n < 2 ^ 64" using mt Cons.prems by simp
  from Cons.IH [OF this] obtain evs2 where
    sid2: "streamID (run mps xs ?t) = streamID ?t" and
    m2: "unat (messageID (run mps xs ?t)) \<le> unat (messageID ?t) + ?n" and
    l2: "log (buf (run mps xs ?t)) = log (buf ?t) @ evs2" and w2: "ids_within ?t ?n evs2"
    by blast
  have w2': "ids_within s (Suc ?n) evs2"
    unfolding ids_within_def
  proof (intro allI impI)
    fix p assume p: "Wr p \<in> set evs2"
    with w2 have "StreamID (PID p) = streamID ?t \<and> unat (messageID ?t) < unat (MessageID (PID p)) \<and>
        unat (MessageID (PID p)) \<le> unat (messageID ?t) + ?n"
      unfolding ids_within_def by blast
    then show "StreamID (PID p) = streamID s \<and> unat (messageID s) < unat (MessageID (PID p)) \<and>
        unat (MessageID (PID p)) \<le> unat (messageID s) + Suc ?n"
      using sid mt by simp
  qed
  have "ids_within s (Suc ?n) (evs1 @ evs2)"
    using w1 w2' unfolding ids_within_def by auto
  moreover have "log (buf (run mps xs ?t)) = log (buf s) @ (evs1 @ evs2)" using l1 l2 by simp
  ultimately have "\<exists>evs. log (buf (run mps xs ?t)) = log (buf s) @ evs \<and> ids_within s (Suc ?n) evs"
    by blast
  then show ?case using sid sid2 m2 mt by simp
qed

lemma pollSend_buf [simp]: "pollSend (s\<lparr>buf := b\<rparr>) = pollSend s"
  by (simp add: pollSend_def)

lemma Split_emit_send_ok:
  "fst (pollSend s) = None \<Longrightarrow> \<forall>n. outcome (buf s) n = None \<Longrightarrow>
     Split_emit send_cb ps s = (None, s\<lparr>buf := (buf s)\<lparr>log := log (buf s) @ map Wr ps\<rparr>\<rparr>)"
proof (induction ps arbitrary: s)
  case Nil
  then show ?case by simp
next
  case (Cons p ps)
  let ?s1 = "s\<lparr>buf := (buf s)\<lparr>log := log (buf s) @ [Wr p]\<rparr>\<rparr>"
  have cb: "send_cb p s = (None, ?s1)"
    using Cons.prems by (simp add: send_cb_def buf_Write_def Buffer_Write_def)
  have "fst (pollSend ?s1) = None" using Cons.prems(1) by simp
  moreover have "\<forall>n. outcome (buf ?s1) n = None" using Cons.prems(2) by simp
  ultimately have "Split_emit send_cb ps ?s1 =
      (None, ?s1\<lparr>buf := (buf ?s1)\<lparr>log := log (buf ?s1) @ map Wr ps\<rparr>\<rparr>)"
    by (rule Cons.IH)
  then show ?case using cb by simp
qed

lemma RawSend_ok:
  assumes "fst (pollSend s) = None" "\<forall>n. outcome (buf s) n = None"
  shows "RawSend mps k d s =
     (None, s\<lparr>messageID := messageID s + 1,
              buf := (buf s)\<lparr>log := log (buf s) @
                map Wr (frames mps k \<lparr>StreamID = streamID s, MessageID = messageID s + 1\<rparr> d)\<rparr>\<rparr>)"
proof -
  let ?pid = "\<lparr>StreamID = streamID s, MessageID = messageID s + 1\<rparr>"
  let ?s1 = "s\<lparr>messageID := messageID s + 1\<rparr>"
  have n: "nextPid s = (?pid, ?s1)" by (simp add: nextPid_def Let_def)
  have "fst (pollSend ?s1) = None" using assms(1) by simp
  moreover have "\<forall>n. outcome (buf ?s1) n = None" using assms(2) by simp
  ultimately have "Split_emit send_cb (frames mps k ?pid d) ?s1 =
      (None, ?s1\<lparr>buf := (buf ?s1)\<lparr>log := log (buf ?s1) @ map Wr (frames mps k ?pid d)\<rparr>\<rparr>)"
    by (rule Split_emit_send_ok)
  then show ?thesis using n by (simp add: RawSend_def Split_def)
qed

lemma run_sends_counter:
  "fst (pollSend s) = None \<Longrightarrow> \<forall>n. outcome (buf s) n = None \<Longrightarrow>
     messageID (run mps (replicate n (Op_RawSend k d)) s) = messageID s + of_nat n \<and>
     streamID (run mps (replicate n (Op_RawSend k d)) s) = streamID s \<and>
     fst (pollSend (run mps (replicate n (Op_RawSend k d)) s)) = None \<and>
     (\<forall>i. outcome (buf (run mps (replicate n (Op_RawSend k d)) s)) i = None)"
proof (induction n arbitrary: s)
  case 0
  then show ?case by simp
next
  case (Suc n)
  let ?t = "snd (RawSend mps k d s)"
  note ok = RawSend_ok [OF Suc.prems, of mps k d]
  have "fst (pollSend ?t) = None" using Suc.prems(1) by (simp add: ok)
  moreover have "\<forall>n. outcome (buf ?t) n = None" using Suc.prems(2) by (simp add: ok)
  ultimately have "messageID (run mps (replicate n (Op_RawSend k d)) ?t) = messageID ?t + of_nat n \<and>
     streamID (run mps (replicate n (Op_RawSend k d)) ?t) = streamID ?t \<and>
     fst (pollSend (run mps (replicate n (Op_RawSend k d)) ?t)) = None \<and>
     (\<forall>i. outcome (buf (run mps (replicate n (Op_RawSend k d)) ?t)) i = None)"
    by (rule Suc.IH)
  moreover have "messageID ?t = messageID s + 1" "streamID ?t = streamID s" by (simp_all add: ok)
  ultimately show ?case by simp
qed

lemma chunks_whole: "chunks 0 d = [d]"
  by (subst chunks.simps) simp

lemma emitted_wrapped:
  assumes "fst (pollSend t) = None" "\<forall>i. outcome (buf t) i = None"
    and "messageID t + 1 = 0" "streamID t = sid"
  shows "emitted 0 (Op_RawSend k d) t =
     [Wr \<lparr>PID = \<lparr>StreamID = sid, MessageID = 0\<rparr>, Kind = k, Data = d\<rparr>]"
  using assms(3,4)
  by (simp add: emitted_def RawSend_ok [OF assms(1,2)] frames_def chunks_whole)

lemma written_ids_append [simp]: "written_ids (xs @ ys) = written_ids xs @ written_ids ys"
  by (simp add: written_ids_def)

lemma written_ids_Wr [simp]: "written_ids (map Wr ps) = map PID ps"
  by (induction ps) (simp_all add: written_ids_def)

lemma RawSend_emitted:
  "\<exists>j \<le> length (frames mps k (fst (nextPid s)) d).
     emitted mps (Op_RawSend k d) s = map Wr (take j (frames mps k (fst (nextPid s)) d)) \<and>
     (fst (RawSend mps k d s) = None \<longrightarrow> j = length (frames mps k (fst (nextPid s)) d))"
proof -
  obtain r t where c: "RawSend mps k d s = (r, t)" by (cases "RawSend mps k d s")
  let ?fr = "frames mps k \<lparr>StreamID = streamID s, MessageID = messageID s + 1\<rparr> d"
  from RawSend_step [OF c]
  have "\<exists>j \<le> length ?fr. log (buf t) = log (buf s) @ map Wr (take j ?fr) \<and> (r = None \<longrightarrow> j = length ?fr)"
    by simp
  then obtain j where j: "j \<le> length ?fr" "log (buf t) = log (buf s) @ map Wr (take j ?fr)"
    "r = None \<longrightarrow> j = length ?fr" by blast
  have "emitted mps (Op_RawSend k d) s = map Wr (take j ?fr)"
    using c j(2) by (simp add: emitted_def)
  moreover have "fst (nextPid s) = \<lparr>StreamID = streamID s, MessageID = messageID s + 1\<rparr>"
    by (simp add: nextPid_def Let_def)
  ultimately show ?thesis using j(1,3) c by auto
qed

lemma RawSend_ids:
  "(\<forall>x \<in> set (written_ids (emitted mps (Op_RawSend k d) s)). x = fst (nextPid s)) \<and>
   (fst (RawSend mps k d s) = None \<longrightarrow> written_ids (emitted mps (Op_RawSend k d) s) \<noteq> [])"
proof -
  let ?fr = "frames mps k (fst (nextPid s)) d"
  from RawSend_emitted [of mps k s d] obtain j where
    j: "emitted mps (Op_RawSend k d) s = map Wr (take j ?fr)"
       "fst (RawSend mps k d s) = None \<longrightarrow> j = length ?fr"
    by (elim exE conjE)
  have a: "\<forall>x \<in> set (map PID (take j ?fr)). x = fst (nextPid s)"
  proof
    fix x assume "x \<in> set (map PID (take j ?fr))"
    then obtain p where p: "p \<in> set (take j ?fr)" "x = PID p" by auto
    from p(1) have "p \<in> set ?fr" by (rule in_set_takeD)
    then have "PID p = fst (nextPid s)" using frames_PID by blast
    with p(2) show "x = fst (nextPid s)" by simp
  qed
  have b: "fst (RawSend mps k d s) = None \<longrightarrow> map PID (take j ?fr) \<noteq> []"
    using j(2) frames_ne [of mps k "fst (nextPid s)" d] by auto
  show ?thesis using a b by (simp add: j(1))
qed







lemma chunks_2_abc: "chunks 2 ''abc'' = [''ab'', ''c'']"
  by (simp add: chunks.simps)


lemma New_sends: "fst (pollSend (New sid ok_buffer)) = None" "\<forall>n. outcome (buf (New sid ok_buffer)) n = None"
  by (simp_all add: pollSend_def Signal_Get_def New_def NewSignal_def ok_buffer_def)

section \<open>Overlapping sends\<close>









lemma sched_step_single:
  "sender_step mps c s = (c', t) \<Longrightarrow> sched_step mps 0 ([c], s) = ([c'], t)"
  by simp

lemma returned_alone:
  "s_phase c = Returned r \<Longrightarrow> run_sched mps (replicate n 0) ([c], s) = ([c], s)"
  by (induction n) (simp_all add: sender_step_def)

lemma failing_alone:
  assumes "s_phase c = Failing e"
  shows "\<exists>c'. run_sched mps (replicate (Suc n) 0) ([c], s) =
            ([c'], s\<lparr>sig := Signal_Set (Some e) (sig s)\<rparr>) \<and> s_phase c' = Returned (Some e)"
proof -
  let ?c = "c\<lparr>s_phase := Returned (Some e)\<rparr>"
  let ?t = "s\<lparr>sig := Signal_Set (Some e) (sig s)\<rparr>"
  have "sender_step mps c s = (?c, ?t)" using assms by (simp add: sender_step_def)
  then have "sched_step mps 0 ([c], s) = ([?c], ?t)" by (rule sched_step_single)
  moreover have "run_sched mps (replicate n 0) ([?c], ?t) = ([?c], ?t)"
    by (rule returned_alone [of _ "Some e"]) simp
  ultimately have "run_sched mps (replicate (Suc n) 0) ([c], s) = ([?c], ?t) \<and>
      s_phase ?c = Returned (Some e)" by simp
  then show ?thesis by (rule exI)
qed

lemma emitting_alone:
  "s_phase c = Emitting \<Longrightarrow> s_todo c = ps \<Longrightarrow> Split_emit send_cb ps s = (r, t) \<Longrightarrow>
     \<exists>c'. run_sched mps (replicate (length ps + 2 + n) 0) ([c], s) =
            ([c'], case r of None \<Rightarrow> t | Some e \<Rightarrow> t\<lparr>sig := Signal_Set (Some e) (sig t)\<rparr>) \<and>
          s_phase c' = Returned r"
proof (induction ps arbitrary: c s)
  case Nil
  let ?c = "c\<lparr>s_phase := Returned None\<rparr>"
  from Nil have rt: "r = None" "t = s" by simp_all
  have "sender_step mps c s = (?c, s)" using Nil by (simp add: sender_step_def)
  then have "sched_step mps 0 ([c], s) = ([?c], s)" by (rule sched_step_single)
  moreover have "run_sched mps (replicate (Suc n) 0) ([?c], s) = ([?c], s)"
    by (rule returned_alone [of _ None]) simp
  ultimately have "run_sched mps (replicate (Suc (Suc n)) 0) ([c], s) = ([?c], s) \<and>
      s_phase ?c = Returned None" by simp
  then have "\<exists>c'. run_sched mps (replicate (Suc (Suc n)) 0) ([c], s) = ([c'], s) \<and>
      s_phase c' = Returned None" by (rule exI)
  then show ?case using rt by simp
next
  case (Cons p ps)
  show ?case
  proof (cases "fst (pollSend s)")
    case (Some e)
    then have cb: "send_cb p s = (Some e, s)" by (simp add: send_cb_def)
    with Cons.prems(3) have rt: "r = Some e" "t = s" by simp_all
    let ?c = "c\<lparr>s_phase := Failing e\<rparr>"
    have "sender_step mps c s = (?c, s)" using Cons.prems(1,2) Some by (simp add: sender_step_def)
    then have 1: "sched_step mps 0 ([c], s) = ([?c], s)" by (rule sched_step_single)
    have "s_phase ?c = Failing e" by simp
    from failing_alone [OF this, of mps "length ps + 1 + n" s] obtain c' where
      "run_sched mps (replicate (Suc (length ps + 1 + n)) 0) ([?c], s) =
         ([c'], s\<lparr>sig := Signal_Set (Some e) (sig s)\<rparr>)" "s_phase c' = Returned (Some e)"
      by blast
    with 1 have "run_sched mps (replicate (length (p # ps) + 2 + n) 0) ([c], s) =
         ([c'], s\<lparr>sig := Signal_Set (Some e) (sig s)\<rparr>) \<and> s_phase c' = Returned (Some e)"
      by simp
    then have "\<exists>c'. run_sched mps (replicate (length (p # ps) + 2 + n) 0) ([c], s) =
         ([c'], s\<lparr>sig := Signal_Set (Some e) (sig s)\<rparr>) \<and> s_phase c' = Returned (Some e)"
      by (rule exI)
    then show ?thesis using rt by simp
  next
    case None
    obtain r1 s1 where w: "buf_Write p s = (r1, s1)" by (cases "buf_Write p s")
    have cb: "send_cb p s = (r1, s1)" using None w by (simp add: send_cb_def)
    show ?thesis
    proof (cases r1)
      case (Some e)
      with cb Cons.prems(3) have rt: "r = Some e" "t = s1" by simp_all
      let ?c = "c\<lparr>s_handed := s_handed c @ [p], s_todo := ps, s_phase := Failing e\<rparr>"
      have "sender_step mps c s = (?c, s1)"
        using Cons.prems(1,2) None w Some by (simp add: sender_step_def)
      then have 1: "sched_step mps 0 ([c], s) = ([?c], s1)" by (rule sched_step_single)
      have "s_phase ?c = Failing e" by simp
      from failing_alone [OF this, of mps "length ps + 1 + n" s1] obtain c' where
        "run_sched mps (replicate (Suc (length ps + 1 + n)) 0) ([?c], s1) =
           ([c'], s1\<lparr>sig := Signal_Set (Some e) (sig s1)\<rparr>)" "s_phase c' = Returned (Some e)"
        by blast
      with 1 have "run_sched mps (replicate (length (p # ps) + 2 + n) 0) ([c], s) =
           ([c'], s1\<lparr>sig := Signal_Set (Some e) (sig s1)\<rparr>) \<and> s_phase c' = Returned (Some e)"
        by simp
      then have "\<exists>c'. run_sched mps (replicate (length (p # ps) + 2 + n) 0) ([c], s) =
           ([c'], s1\<lparr>sig := Signal_Set (Some e) (sig s1)\<rparr>) \<and> s_phase c' = Returned (Some e)"
        by (rule exI)
      then show ?thesis using rt by simp
    next
      case r1: None
      with cb Cons.prems(3) have sp: "Split_emit send_cb ps s1 = (r, t)" by simp
      let ?c = "c\<lparr>s_handed := s_handed c @ [p], s_todo := ps, s_phase := Emitting\<rparr>"
      have "sender_step mps c s = (?c, s1)"
        using Cons.prems(1,2) None w r1 by (simp add: sender_step_def)
      then have 1: "sched_step mps 0 ([c], s) = ([?c], s1)" by (rule sched_step_single)
      have "s_phase ?c = Emitting" "s_todo ?c = ps" by simp_all
      from Cons.IH [OF this sp] obtain c' where
        "run_sched mps (replicate (length ps + 2 + n) 0) ([?c], s1) =
           ([c'], case r of None \<Rightarrow> t | Some e \<Rightarrow> t\<lparr>sig := Signal_Set (Some e) (sig t)\<rparr>)"
        "s_phase c' = Returned r" by blast
      with 1 have "run_sched mps (replicate (length (p # ps) + 2 + n) 0) ([c], s) =
           ([c'], case r of None \<Rightarrow> t | Some e \<Rightarrow> t\<lparr>sig := Signal_Set (Some e) (sig t)\<rparr>) \<and>
           s_phase c' = Returned r"
        by simp
      then show ?thesis by (rule exI)
    qed
  qed
qed

lemma sender_alone:
  "\<exists>c'. run_sched mps (replicate (length (chunks mps d) + 3 + n) 0) ([new_sender k d], s) =
           ([c'], snd (RawSend mps k d s)) \<and>
         s_phase c' = Returned (fst (RawSend mps k d s))"
proof -
  let ?pid = "\<lparr>StreamID = streamID s, MessageID = messageID s + 1\<rparr>"
  let ?s1 = "s\<lparr>messageID := messageID s + 1\<rparr>"
  let ?fr = "frames mps k ?pid d"
  let ?c = "(new_sender k d)\<lparr>s_pid := Some ?pid, s_todo := ?fr, s_phase := Emitting\<rparr>"
  have n: "nextPid s = (?pid, ?s1)" by (simp add: nextPid_def Let_def)
  obtain r t where sp: "Split_emit send_cb ?fr ?s1 = (r, t)" by (cases "Split_emit send_cb ?fr ?s1")
  have rs: "RawSend mps k d s = (r, case r of None \<Rightarrow> t | Some e \<Rightarrow> t\<lparr>sig := Signal_Set (Some e) (sig t)\<rparr>)"
    using n sp by (cases r) (simp_all add: RawSend_def Split_def)
  have "sender_step mps (new_sender k d) s = (?c, ?s1)"
    using n by (simp add: sender_step_def new_sender_def)
  then have 1: "sched_step mps 0 ([new_sender k d], s) = ([?c], ?s1)" by (rule sched_step_single)
  have "s_phase ?c = Emitting" "s_todo ?c = ?fr" by simp_all
  from emitting_alone [OF this sp, of mps n] obtain c' where
    c': "run_sched mps (replicate (length ?fr + 2 + n) 0) ([?c], ?s1) =
       ([c'], case r of None \<Rightarrow> t | Some e \<Rightarrow> t\<lparr>sig := Signal_Set (Some e) (sig t)\<rparr>)"
    "s_phase c' = Returned r" by blast
  have len: "length (chunks mps d) + 3 + n = Suc (length ?fr + 2 + n)" by (simp add: frames_def)
  have "run_sched mps (replicate (Suc (length ?fr + 2 + n)) 0) ([new_sender k d], s) =
      run_sched mps (replicate (length ?fr + 2 + n) 0) (sched_step mps 0 ([new_sender k d], s))"
    by (simp del: sched_step.simps)
  also have "\<dots> = ([c'], case r of None \<Rightarrow> t | Some e \<Rightarrow> t\<lparr>sig := Signal_Set (Some e) (sig t)\<rparr>)"
    unfolding 1 by (rule c'(1))
  finally have "run_sched mps (replicate (length (chunks mps d) + 3 + n) 0) ([new_sender k d], s) =
       ([c'], snd (RawSend mps k d s)) \<and> s_phase c' = Returned (fst (RawSend mps k d s))"
    unfolding len using rs c'(2) by simp
  then show ?thesis by (rule exI)
qed

lemma overlapping_sends_out_of_order:
  "writer_ids (snd (run_sched 0 [0, 1, 1, 1, 0, 0]
     ([new_sender PayloadKind_Message ''a'', new_sender PayloadKind_Message ''b''], New 1 ok_buffer))) = [2, 1] \<and>
   map s_phase (fst (run_sched 0 [0, 1, 1, 1, 0, 0]
     ([new_sender PayloadKind_Message ''a'', new_sender PayloadKind_Message ''b''], New 1 ok_buffer))) =
     [Returned None, Returned None]"
  by (simp add: sender_step_def new_sender_def nextPid_def Let_def frames_def chunks_whole
      pollSend_def Signal_Get_def buf_Write_def Buffer_Write_def New_def NewSignal_def ok_buffer_def
      writer_ids_def written_ids_def)







section \<open>The claims\<close>







text \<open>
  Claim C3. On a stream with neither the general nor the terminal signal set,
  \<^verbatim>\<open>CloseSend\<close> latches the send-closed signal whatever happens, and a second
  \<^verbatim>\<open>CloseSend\<close> returns nil and changes nothing: no packet, no flush, no identifier
  used; so does any \<^verbatim>\<open>CloseSend\<close> that finds the send-closed signal set. When the
  send half was still open, the first call hands exactly one CloseSend
  packet to the writer (followed by a flush when the write succeeded) and the signal
  then holds the error "send after CloseSend".
\<close>

theorem C3_CloseSend_idempotent:
  assumes "\<not> is_set (sig s)" "\<not> is_set (termSig s)"
  shows "is_set (sendSig (snd (CloseSend mps s))) \<and>
         CloseSend mps (snd (CloseSend mps s)) = (None, snd (CloseSend mps s)) \<and>
         (is_set (sendSig s) \<longrightarrow> CloseSend mps s = (None, s)) \<and>
         (\<not> is_set (sendSig s) \<longrightarrow>
            log (buf (snd (CloseSend mps s))) =
              log (buf s) @
              Wr \<lparr>PID = \<lparr>StreamID = streamID s, MessageID = messageID s + 1\<rparr>,
                  Kind = PayloadKind_CloseSend, Data = []\<rparr> #
              (if outcome (buf s) (length (log (buf s))) = None then [Fl] else []) \<and>
            sendSig (snd (CloseSend mps s)) =
              \<lparr>is_set = True, err = Some (DrpcError ''send after CloseSend'')\<rparr>)"
proof (intro conjI impI)
  obtain r t where c: "CloseSend mps s = (r, t)" by (cases "CloseSend mps s")
  note st = CloseSend_step [OF c]
  show set: "is_set (sendSig (snd (CloseSend mps s)))"
    using st c by (simp add: Signal_Set_is_set)
  have "\<not> is_set (sig t)" "\<not> is_set (termSig t)" "is_set (sendSig t)"
    using st assms by (simp_all add: Signal_Set_is_set)
  then have "CloseSend mps t = (None, t)" by (rule CloseSend_again)
  then show "CloseSend mps (snd (CloseSend mps s)) = (None, snd (CloseSend mps s))"
    using c by simp
next
  assume "is_set (sendSig s)"
  with assms show "CloseSend mps s = (None, s)" by (rule CloseSend_again)
next
  assume fresh: "\<not> is_set (sendSig s)"
  note eq = CloseSend_fresh [OF assms fresh, of mps]
  show "log (buf (snd (CloseSend mps s))) =
              log (buf s) @
              Wr \<lparr>PID = \<lparr>StreamID = streamID s, MessageID = messageID s + 1\<rparr>,
                  Kind = PayloadKind_CloseSend, Data = []\<rparr> #
              (if outcome (buf s) (length (log (buf s))) = None then [Fl] else [])"
    by (simp add: eq wireSendFlush_Nil Let_def split: option.splits)
  show "sendSig (snd (CloseSend mps s)) =
              \<lparr>is_set = True, err = Some (DrpcError ''send after CloseSend'')\<rparr>"
    by (simp add: eq split: prod.splits)
qed

theorem C3_witness:
  "CloseSend 0 (New 1 ok_buffer) =
     (None, (New 1 ok_buffer)\<lparr>messageID := 1,
        buf := \<lparr>log = [Wr \<lparr>PID = \<lparr>StreamID = 1, MessageID = 1\<rparr>,
                          Kind = PayloadKind_CloseSend, Data = []\<rparr>, Fl],
                outcome = (\<lambda>_. None)\<rparr>,
        sendSig := \<lparr>is_set = True, err = Some (DrpcError ''send after CloseSend'')\<rparr>\<rparr>) \<and>
   CloseSend 0 (snd (CloseSend 0 (New 1 ok_buffer))) = (None, snd (CloseSend 0 (New 1 ok_buffer)))"
proof -
  have a: "\<not> is_set (sig (New 1 ok_buffer))" "\<not> is_set (termSig (New 1 ok_buffer))"
    by (simp_all add: New_def NewSignal_def)
  have "CloseSend 0 (New 1 ok_buffer) =
     (None, (New 1 ok_buffer)\<lparr>messageID := 1,
        buf := \<lparr>log = [Wr \<lparr>PID = \<lparr>StreamID = 1, MessageID = 1\<rparr>,
                          Kind = PayloadKind_CloseSend, Data = []\<rparr>, Fl],
                outcome = (\<lambda>_. None)\<rparr>,
        sendSig := \<lparr>is_set = True, err = Some (DrpcError ''send after CloseSend'')\<rparr>\<rparr>)"
    by (simp add: CloseSend_def pollSend_def Signal_Get_def Signal_Set_def
      wireSendFlush_Nil New_def NewSignal_def ok_buffer_def Let_def)
  with C3_CloseSend_idempotent [OF a, of 0] show ?thesis by simp
qed




text \<open>
  Claim C5. When \<^verbatim>\<open>pollSend\<close> reports an error that is not flagged as send-closed,
  \<^verbatim>\<open>Close\<close> returns nil, leaves the writer and the message counter untouched, and
  still latches the general-error, terminal and send-closed signals.
\<close>

theorem C5_Close_short_circuit:
  assumes "pollSend s = (Some e, False)"
  shows "Close mps s =
          (None, s\<lparr>sig := Signal_Set (Some (DrpcError ''stream closed'')) (sig s),
                   termSig := Signal_Set (Some (DrpcError ''stream terminated'')) (termSig s),
                   sendSig := Signal_Set (Some (DrpcError ''send after CloseSend'')) (sendSig s)\<rparr>) \<and>
         buf (snd (Close mps s)) = buf s \<and> messageID (snd (Close mps s)) = messageID s \<and>
         is_set (sig (snd (Close mps s))) \<and> is_set (termSig (snd (Close mps s))) \<and>
         is_set (sendSig (snd (Close mps s)))"
  using assms by (simp add: Close_def Let_def Signal_Set_is_set)

theorem C5_witness:
  "pollSend ((New 1 ok_buffer)\<lparr>sig := \<lparr>is_set = True, err = Some (OtherError ''io'')\<rparr>\<rparr>)
     = (Some (OtherError ''io''), False) \<and>
   fst (Close 0 ((New 1 ok_buffer)\<lparr>sig := \<lparr>is_set = True, err = Some (OtherError ''io'')\<rparr>\<rparr>)) = None \<and>
   log (buf (snd (Close 0 ((New 1 ok_buffer)\<lparr>sig := \<lparr>is_set = True, err = Some (OtherError ''io'')\<rparr>\<rparr>)))) = [] \<and>
   sendSig (snd (Close 0 ((New 1 ok_buffer)\<lparr>sig := \<lparr>is_set = True, err = Some (OtherError ''io'')\<rparr>\<rparr>)))
     = \<lparr>is_set = True, err = Some (DrpcError ''send after CloseSend'')\<rparr>"
proof -
  let ?s = "(New 1 ok_buffer)\<lparr>sig := \<lparr>is_set = True, err = Some (OtherError ''io'')\<rparr>\<rparr>"
  have p: "pollSend ?s = (Some (OtherError ''io''), False)"
    by (simp add: pollSend_def Signal_Get_def New_def)
  from C5_Close_short_circuit [OF p, of 0] p show ?thesis
    by (simp add: New_def NewSignal_def ok_buffer_def Signal_Set_def)
qed

text \<open>
  Claim C6. \<^verbatim>\<open>pollSend\<close> denies with the general error when the general-error signal
  is set; otherwise with the terminal error when the terminal signal is set; otherwise
  with the send-closed error and the flag "already closed" when the send-closed signal
  is set; otherwise it returns nil. The callback of \<^verbatim>\<open>RawSend\<close> and \<^verbatim>\<open>RawFlush\<close>
  return the denial without touching the writer, and go on to the writer when there is
  none.
\<close>

theorem C6_pollSend_three_tier:
  "pollSend s =
     (if is_set (sig s) then (err (sig s), False)
      else if is_set (termSig s) then (err (termSig s), False)
      else if is_set (sendSig s) then (err (sendSig s), True)
      else (None, False)) \<and>
   send_cb p s = (if fst (pollSend s) \<noteq> None then (fst (pollSend s), s) else buf_Write p s) \<and>
   RawFlush s =
     (if fst (pollSend s) \<noteq> None then (fst (pollSend s), s)
      else (case buf_Flush s of
              (Some e, s1) \<Rightarrow> (Some e, s1\<lparr>sig := Signal_Set (Some e) (sig s1)\<rparr>)
            | (None, s1) \<Rightarrow> (None, s1)))"
proof (intro conjI)
  show "pollSend s =
     (if is_set (sig s) then (err (sig s), False)
      else if is_set (termSig s) then (err (termSig s), False)
      else if is_set (sendSig s) then (err (sendSig s), True)
      else (None, False))"
    by (simp add: pollSend_def Signal_Get_def)
  show "send_cb p s = (if fst (pollSend s) \<noteq> None then (fst (pollSend s), s) else buf_Write p s)"
    by (rule send_cb_poll)
  show "RawFlush s =
     (if fst (pollSend s) \<noteq> None then (fst (pollSend s), s)
      else (case buf_Flush s of
              (Some e, s1) \<Rightarrow> (Some e, s1\<lparr>sig := Signal_Set (Some e) (sig s1)\<rparr>)
            | (None, s1) \<Rightarrow> (None, s1)))"
    by (auto simp: RawFlush_def split: option.splits)
qed

theorem C6_witness:
  "pollSend ((New 1 ok_buffer)\<lparr>sig := \<lparr>is_set = True, err = Some (OtherError ''io'')\<rparr>,
        termSig := \<lparr>is_set = True, err = Some (DrpcError ''stream terminated'')\<rparr>,
        sendSig := \<lparr>is_set = True, err = Some (DrpcError ''send after CloseSend'')\<rparr>\<rparr>)
     = (Some (OtherError ''io''), False) \<and>
   pollSend ((New 1 ok_buffer)\<lparr>
        termSig := \<lparr>is_set = True, err = Some (DrpcError ''stream terminated'')\<rparr>,
        sendSig := \<lparr>is_set = True, err = Some (DrpcError ''send after CloseSend'')\<rparr>\<rparr>)
     = (Some (DrpcError ''stream terminated''), False) \<and>
   pollSend ((New 1 ok_buffer)\<lparr>
        sendSig := \<lparr>is_set = True, err = Some (DrpcError ''send after CloseSend'')\<rparr>\<rparr>)
     = (Some (DrpcError ''send after CloseSend''), True) \<and>
   pollSend (New 1 ok_buffer) = (None, False)"
  using
    C6_pollSend_three_tier [of "(New 1 ok_buffer)\<lparr>sig := \<lparr>is_set = True, err = Some (OtherError ''io'')\<rparr>,
        termSig := \<lparr>is_set = True, err = Some (DrpcError ''stream terminated'')\<rparr>,
        sendSig := \<lparr>is_set = True, err = Some (DrpcError ''send after CloseSend'')\<rparr>\<rparr>"]
    C6_pollSend_three_tier [of "(New 1 ok_buffer)\<lparr>
        termSig := \<lparr>is_set = True, err = Some (DrpcError ''stream terminated'')\<rparr>,
        sendSig := \<lparr>is_set = True, err = Some (DrpcError ''send after CloseSend'')\<rparr>\<rparr>"]
    C6_pollSend_three_tier [of "(New 1 ok_buffer)\<lparr>
        sendSig := \<lparr>is_set = True, err = Some (DrpcError ''send after CloseSend'')\<rparr>\<rparr>"]
    C6_pollSend_three_tier [of "New 1 ok_buffer"]
  by (simp add: New_def NewSignal_def)

text \<open>
  Claim C7, as amended. \<^verbatim>\<open>RawCancel\<close> on a stream whose terminal signal is unset
  hands exactly one Cancel packet with no payload to the writer (and flushes when the
  write succeeded); the outcome of the writer changes nothing else. With the terminal
  signal set it leaves the writer alone. In every case it latches the terminal signal
  and calls \<^verbatim>\<open>Set\<close> with \<^verbatim>\<open>context.Canceled\<close> on the general-error signal, which
  records the cancellation error when the signal was unset and keeps the error
  recorded earlier otherwise. A second \<^verbatim>\<open>RawCancel\<close>, or one after \<^verbatim>\<open>RawError\<close>,
  writes nothing.
\<close>

theorem C7_RawCancel:
  "(if is_set (termSig s) then buf (RawCancel mps s) = buf s
    else log (buf (RawCancel mps s)) =
           log (buf s) @
           Wr \<lparr>PID = \<lparr>StreamID = streamID s, MessageID = messageID s + 1\<rparr>,
               Kind = PayloadKind_Cancel, Data = []\<rparr> #
           (if outcome (buf s) (length (log (buf s))) = None then [Fl] else [])) \<and>
   termSig (RawCancel mps s) = Signal_Set (Some (DrpcError ''stream terminated'')) (termSig s) \<and>
   is_set (termSig (RawCancel mps s)) \<and>
   sig (RawCancel mps s) = Signal_Set (Some ContextCanceled) (sig s) \<and>
   sig (RawCancel mps s) = (if is_set (sig s) then sig s else \<lparr>is_set = True, err = Some ContextCanceled\<rparr>) \<and>
   is_set (sig (RawCancel mps s)) \<and>
   buf (RawCancel mps (RawCancel mps s)) = buf (RawCancel mps s) \<and>
   buf (RawCancel mps (snd (RawError mps e s))) = buf (snd (RawError mps e s))"
proof -
  note st = RawCancel_step [OF refl, of mps s]
  have tset: "is_set (termSig (RawCancel mps s))" using st by (simp add: Signal_Set_is_set)
  have again: "buf (RawCancel mps (RawCancel mps s)) = buf (RawCancel mps s)"
    using RawCancel_step [OF refl, of mps "RawCancel mps s"] tset by simp
  obtain p t where e: "RawError mps e s = (p, t)" by (cases "RawError mps e s")
  have "is_set (termSig t)" using RawError_step [OF e] by (simp add: Signal_Set_is_set)
  then have after: "buf (RawCancel mps (snd (RawError mps e s))) = buf (snd (RawError mps e s))"
    using RawCancel_step [OF refl, of mps t] e by simp
  show ?thesis using st tset again after RawCancel_live [of s mps]
    by (simp add: Signal_Set_is_set) (simp add: Signal_Set_def)
qed

theorem C7_witness:
  "log (buf (RawCancel 0 (New 1 ok_buffer))) =
     [Wr \<lparr>PID = \<lparr>StreamID = 1, MessageID = 1\<rparr>, Kind = PayloadKind_Cancel, Data = []\<rparr>, Fl] \<and>
   sig (RawCancel 0 (New 1 ok_buffer)) = \<lparr>is_set = True, err = Some ContextCanceled\<rparr> \<and>
   termSig (RawCancel 0 (New 1 ok_buffer)) =
     \<lparr>is_set = True, err = Some (DrpcError ''stream terminated'')\<rparr> \<and>
   log (buf (RawCancel 0 (RawCancel 0 (New 1 ok_buffer)))) =
     [Wr \<lparr>PID = \<lparr>StreamID = 1, MessageID = 1\<rparr>, Kind = PayloadKind_Cancel, Data = []\<rparr>, Fl]"
  using C7_RawCancel [of "New 1 ok_buffer" 0 None]
  by (simp add: New_def NewSignal_def ok_buffer_def Signal_Set_def)

text \<open>
  Claim C7 as stated fails: after a \<^verbatim>\<open>RawFlush\<close> whose flush failed, the
  general-error signal holds the writer's error and the terminal signal is unset;
  \<^verbatim>\<open>RawCancel\<close> then writes its Cancel frame, and the general-error signal still holds
  the writer's error, not the cancellation error.
\<close>

theorem C7_counterexample:
  "fst (RawFlush (New 1 flush_fails)) = Some (OtherError ''io'') \<and>
   log (buf (RawCancel 0 (snd (RawFlush (New 1 flush_fails))))) =
     [Fl, Wr \<lparr>PID = \<lparr>StreamID = 1, MessageID = 1\<rparr>, Kind = PayloadKind_Cancel, Data = []\<rparr>, Fl] \<and>
   sig (RawCancel 0 (snd (RawFlush (New 1 flush_fails)))) =
     \<lparr>is_set = True, err = Some (OtherError ''io'')\<rparr> \<and>
   err (sig (RawCancel 0 (snd (RawFlush (New 1 flush_fails))))) \<noteq> Some ContextCanceled"
  by (simp add: RawCancel_def RawFlush_def pollSend_def Signal_Get_def Signal_Set_def
      wireSendFlush_Nil buf_Flush_def Buffer_Flush_def New_def NewSignal_def flush_fails_def Let_def)

text \<open>
  Claim C8. \<^verbatim>\<open>RawRecv\<close> returns the recorded error at once when the general-error
  signal is set. Otherwise it returns the oldest queued packet; reports \<^verbatim>\<open>io.EOF\<close>
  when the queue is closed and drained; and blocks when the queue is empty and open.
  A blocked caller is released by the \<^verbatim>\<open>select\<close>: with the signal's error once the
  signal has fired, with the packet once one has arrived.
\<close>

theorem C8_RawRecv:
  "(is_set (sig s) \<longrightarrow> RawRecv s = [((None, err (sig s)), s)]) \<and>
   (\<not> is_set (sig s) \<and> queue s = p # ps \<longrightarrow> RawRecv s = [((Some p, None), s\<lparr>queue := ps\<rparr>)]) \<and>
   (\<not> is_set (sig s) \<and> queue s = [] \<and> queue_closed s \<longrightarrow> RawRecv s = [((None, Some EOF), s)]) \<and>
   (\<not> is_set (sig s) \<and> queue s = [] \<and> \<not> queue_closed s \<longrightarrow> RawRecv s = []) \<and>
   (is_set (sig t) \<and> queue t = [] \<and> \<not> queue_closed t \<longrightarrow> select_recv t = [((None, err (sig t)), t)]) \<and>
   (\<not> is_set (sig t) \<and> queue t = p # ps \<longrightarrow> select_recv t = [((Some p, None), t\<lparr>queue := ps\<rparr>)])"
  by (simp add: RawRecv_def select_recv_def Signal_Get_def Signal_Err_def)

theorem C8_witness:
  "RawRecv ((New 1 ok_buffer)\<lparr>sig := \<lparr>is_set = True, err = Some ContextCanceled\<rparr>\<rparr>) =
     [((None, Some ContextCanceled), (New 1 ok_buffer)\<lparr>sig := \<lparr>is_set = True, err = Some ContextCanceled\<rparr>\<rparr>)] \<and>
   RawRecv ((New 1 ok_buffer)\<lparr>queue :=
       [\<lparr>PID = \<lparr>StreamID = 1, MessageID = 1\<rparr>, Kind = PayloadKind_Message, Data = ''a''\<rparr>]\<rparr>) =
     [((Some \<lparr>PID = \<lparr>StreamID = 1, MessageID = 1\<rparr>, Kind = PayloadKind_Message, Data = ''a''\<rparr>, None),
       New 1 ok_buffer)] \<and>
   RawRecv ((New 1 ok_buffer)\<lparr>queue_closed := True\<rparr>) =
     [((None, Some EOF), (New 1 ok_buffer)\<lparr>queue_closed := True\<rparr>)] \<and>
   RawRecv (New 1 ok_buffer) = [] \<and>
   select_recv ((New 1 ok_buffer)\<lparr>sig := \<lparr>is_set = True, err = Some ContextCanceled\<rparr>\<rparr>) =
     [((None, Some ContextCanceled), (New 1 ok_buffer)\<lparr>sig := \<lparr>is_set = True, err = Some ContextCanceled\<rparr>\<rparr>)] \<and>
   select_recv ((New 1 ok_buffer)\<lparr>queue :=
       [\<lparr>PID = \<lparr>StreamID = 1, MessageID = 1\<rparr>, Kind = PayloadKind_Message, Data = ''a''\<rparr>]\<rparr>) =
     [((Some \<lparr>PID = \<lparr>StreamID = 1, MessageID = 1\<rparr>, Kind = PayloadKind_Message, Data = ''a''\<rparr>, None),
       New 1 ok_buffer)]"
  using
    C8_RawRecv [of "(New 1 ok_buffer)\<lparr>sig := \<lparr>is_set = True, err = Some ContextCanceled\<rparr>\<rparr>"
      "\<lparr>PID = \<lparr>StreamID = 1, MessageID = 1\<rparr>, Kind = PayloadKind_Message, Data = ''a''\<rparr>" "[]" "(New 1 ok_buffer)\<lparr>sig := \<lparr>is_set = True, err = Some ContextCanceled\<rparr>\<rparr>"]
    C8_RawRecv [of "(New 1 ok_buffer)\<lparr>queue :=
       [\<lparr>PID = \<lparr>StreamID = 1, MessageID = 1\<rparr>, Kind = PayloadKind_Message, Data = ''a''\<rparr>]\<rparr>"
      "\<lparr>PID = \<lparr>StreamID = 1, MessageID = 1\<rparr>, Kind = PayloadKind_Message, Data = ''a''\<rparr>" "[]"
      "(New 1 ok_buffer)\<lparr>queue :=
       [\<lparr>PID = \<lparr>StreamID = 1, MessageID = 1\<rparr>, Kind = PayloadKind_Message, Data = ''a''\<rparr>]\<rparr>"]
    C8_RawRecv [of "(New 1 ok_buffer)\<lparr>queue_closed := True\<rparr>" "\<lparr>PID = \<lparr>StreamID = 1, MessageID = 1\<rparr>, Kind = PayloadKind_Message, Data = ''a''\<rparr>" "[]" "New 1 ok_buffer"]
    C8_RawRecv [of "New 1 ok_buffer" "\<lparr>PID = \<lparr>StreamID = 1, MessageID = 1\<rparr>, Kind = PayloadKind_Message, Data = ''a''\<rparr>" "[]" "New 1 ok_buffer"]
  by (simp add: New_def NewSignal_def)

text \<open>
  Claim C9. A \<^verbatim>\<open>RawSend\<close> that \<^verbatim>\<open>pollSend\<close> denies returns the denial and records it
  in the general-error signal, writing nothing. So on a fresh stream, after
  \<^verbatim>\<open>CloseSend\<close>, a \<^verbatim>\<open>RawSend\<close> returns "send after CloseSend" and latches it as the
  general error, and every later \<^verbatim>\<open>RawRecv\<close>, after any further calls, fails with it.
\<close>

theorem C9_send_after_CloseSend:
  assumes "\<not> is_set (sig s)" "\<not> is_set (termSig s)" "\<not> is_set (sendSig s)"
  shows "(fst (pollSend u) = Some e \<longrightarrow>
            RawSend mps k d u =
              (Some e, u\<lparr>messageID := messageID u + 1, sig := Signal_Set (Some e) (sig u)\<rparr>)) \<and>
         fst (RawSend mps k d (snd (CloseSend mps s))) = Some (DrpcError ''send after CloseSend'') \<and>
         sig (snd (RawSend mps k d (snd (CloseSend mps s)))) =
           \<lparr>is_set = True, err = Some (DrpcError ''send after CloseSend'')\<rparr> \<and>
         buf (snd (RawSend mps k d (snd (CloseSend mps s)))) = buf (snd (CloseSend mps s)) \<and>
         RawRecv (run mps xs (snd (RawSend mps k d (snd (CloseSend mps s))))) =
           [((None, Some (DrpcError ''send after CloseSend'')),
             run mps xs (snd (RawSend mps k d (snd (CloseSend mps s)))))]"
proof -
  let ?e = "DrpcError ''send after CloseSend''"
  obtain r s1 where c: "CloseSend mps s = (r, s1)" by (cases "CloseSend mps s")
  from CloseSend_step [OF c] assms
  have s1: "\<not> is_set (sig s1)" "\<not> is_set (termSig s1)" "sendSig s1 = \<lparr>is_set = True, err = Some ?e\<rparr>"
    by (simp_all add: Signal_Set_def)
  then have p: "fst (pollSend s1) = Some ?e" by (simp add: pollSend_def Signal_Get_def)
  let ?s2 = "s1\<lparr>messageID := messageID s1 + 1, sig := Signal_Set (Some ?e) (sig s1)\<rparr>"
  have snd: "RawSend mps k d s1 = (Some ?e, ?s2)" using p by (rule RawSend_denied)
  have sig2: "sig ?s2 = \<lparr>is_set = True, err = Some ?e\<rparr>" using s1(1) by (simp add: Signal_Set_def)
  then have "is_set (sig ?s2)" by simp
  then have "sig (run mps xs ?s2) = sig ?s2" by (rule run_sig_latched)
  with sig2 have "RawRecv (run mps xs ?s2) = [((None, Some ?e), run mps xs ?s2)]"
    by (simp add: RawRecv_failed)
  then show ?thesis using c snd sig2 by (simp add: RawSend_denied)
qed

theorem C9_witness:
  "fst (RawSend 0 PayloadKind_Message ''a'' (snd (CloseSend 0 (New 1 ok_buffer)))) =
     Some (DrpcError ''send after CloseSend'') \<and>
   sig (snd (RawSend 0 PayloadKind_Message ''a'' (snd (CloseSend 0 (New 1 ok_buffer))))) =
     \<lparr>is_set = True, err = Some (DrpcError ''send after CloseSend'')\<rparr> \<and>
   RawRecv (snd (RawSend 0 PayloadKind_Message ''a'' (snd (CloseSend 0 (New 1 ok_buffer))))) =
     [((None, Some (DrpcError ''send after CloseSend'')),
       snd (RawSend 0 PayloadKind_Message ''a'' (snd (CloseSend 0 (New 1 ok_buffer)))))]"
proof -
  have a: "\<not> is_set (sig (New 1 ok_buffer))" "\<not> is_set (termSig (New 1 ok_buffer))"
    "\<not> is_set (sendSig (New 1 ok_buffer))"
    by (simp_all add: New_def NewSignal_def)
  from C9_send_after_CloseSend [OF a, of "New 1 ok_buffer" "DrpcError []" 0 PayloadKind_Message "''a''" "[]"]
  show ?thesis by simp
qed

text \<open>
  Claim C10, as amended. The first identifier a stream allocates has message id 1. No
  packet the stream hands to the writer in its first \<open>2\<^sup>6\<^sup>4 - 1\<close> calls carries message
  id 0. \<^verbatim>\<open>RawSend\<close> advances the counter exactly once, and every packet it writes
  carries the identifier it allocated on entry.
\<close>

theorem C10_message_ids:
  "fst (nextPid (New sid b)) = \<lparr>StreamID = sid, MessageID = 1\<rparr> \<and>
   (length xs < 2 ^ 64 \<longrightarrow>
      (\<forall>p. Wr p \<in> set (drop (length (log b)) (log (buf (run mps xs (New sid b))))) \<longrightarrow>
           MessageID (PID p) \<noteq> 0)) \<and>
   messageID (snd (RawSend mps k d s)) = messageID s + 1 \<and>
   (\<forall>p. Wr p \<in> set (emitted mps (Op_RawSend k d) s) \<longrightarrow> PID p = fst (nextPid s))"
proof (intro conjI impI allI)
  show "fst (nextPid (New sid b)) = \<lparr>StreamID = sid, MessageID = 1\<rparr>"
    by (simp add: nextPid_def New_def Let_def)
next
  fix p
  assume len: "length xs < 2 ^ 64"
    and p: "Wr p \<in> set (drop (length (log b)) (log (buf (run mps xs (New sid b)))))"
  have "unat (messageID (New sid b)) + length xs < 2 ^ 64" using len by (simp add: New_def)
  from run_ids [OF this, of mps] obtain evs where
    l: "log (buf (run mps xs (New sid b))) = log (buf (New sid b)) @ evs" and
    w: "ids_within (New sid b) (length xs) evs" by blast
  have "Wr p \<in> set evs" using p l by (simp add: New_def)
  with w have "unat (messageID (New sid b)) < unat (MessageID (PID p))"
    unfolding ids_within_def by blast
  then show "MessageID (PID p) \<noteq> 0" by (auto simp: New_def)
next
  show "messageID (snd (RawSend mps k d s)) = messageID s + 1"
    using RawSend_step [of mps k d s "fst (RawSend mps k d s)" "snd (RawSend mps k d s)"] by simp
next
  fix p assume "Wr p \<in> set (emitted mps (Op_RawSend k d) s)"
  then have "PID p \<in> set (written_ids (emitted mps (Op_RawSend k d) s))"
    by (auto simp: written_ids_def intro!: bexI [of _ "Wr p"])
  with RawSend_ids [of mps k d s] show "PID p = fst (nextPid s)" by blast
qed

theorem C10_witness:
  "fst (nextPid (New 1 ok_buffer)) = \<lparr>StreamID = 1, MessageID = 1\<rparr> \<and>
   length [Op_RawSend PayloadKind_Message ''abc'', Op_CloseSend] < 2 ^ 64 \<and>
   log (buf (run 2 [Op_RawSend PayloadKind_Message ''abc'', Op_CloseSend] (New 1 ok_buffer))) =
     [Wr \<lparr>PID = \<lparr>StreamID = 1, MessageID = 1\<rparr>, Kind = PayloadKind_Message, Data = ''ab''\<rparr>,
      Wr \<lparr>PID = \<lparr>StreamID = 1, MessageID = 1\<rparr>, Kind = PayloadKind_Message, Data = ''c''\<rparr>,
      Wr \<lparr>PID = \<lparr>StreamID = 1, MessageID = 2\<rparr>, Kind = PayloadKind_CloseSend, Data = []\<rparr>, Fl]"
proof -
  have s1: "RawSend 2 PayloadKind_Message ''abc'' (New 1 ok_buffer) =
    (None, (New 1 ok_buffer)\<lparr>messageID := 1, buf := \<lparr>log =
       [Wr \<lparr>PID = \<lparr>StreamID = 1, MessageID = 1\<rparr>, Kind = PayloadKind_Message, Data = ''ab''\<rparr>,
        Wr \<lparr>PID = \<lparr>StreamID = 1, MessageID = 1\<rparr>, Kind = PayloadKind_Message, Data = ''c''\<rparr>],
       outcome = (\<lambda>_. None)\<rparr>\<rparr>)"
    by (simp add: RawSend_ok [OF New_sends] frames_def chunks_2_abc) (simp add: New_def ok_buffer_def)
  have "log (buf (run 2 [Op_RawSend PayloadKind_Message ''abc'', Op_CloseSend] (New 1 ok_buffer))) =
     [Wr \<lparr>PID = \<lparr>StreamID = 1, MessageID = 1\<rparr>, Kind = PayloadKind_Message, Data = ''ab''\<rparr>,
      Wr \<lparr>PID = \<lparr>StreamID = 1, MessageID = 1\<rparr>, Kind = PayloadKind_Message, Data = ''c''\<rparr>,
      Wr \<lparr>PID = \<lparr>StreamID = 1, MessageID = 2\<rparr>, Kind = PayloadKind_CloseSend, Data = []\<rparr>, Fl]"
    by (simp add: s1) (simp add: CloseSend_def pollSend_def Signal_Get_def Signal_Set_def
      wireSendFlush_Nil New_def NewSignal_def ok_buffer_def Let_def)
  with C10_message_ids [of 1 ok_buffer "[Op_RawSend PayloadKind_Message ''abc'', Op_CloseSend]" 2
    PayloadKind_Message "''abc''" "New 1 ok_buffer"]
  show ?thesis by simp
qed

text \<open>
  Claim C10 as stated fails where the counter wraps: after \<open>2\<^sup>6\<^sup>4 - 1\<close> successful
  sends on a fresh stream the counter is at its maximum, and the next \<^verbatim>\<open>RawSend\<close>
  hands the writer a packet with message id 0.
\<close>

theorem C10_counterexample:
  "emitted 0 (Op_RawSend PayloadKind_Message ''a'')
     (run 0 (replicate (2 ^ 64 - 1) (Op_RawSend PayloadKind_Message ''a'')) (New 1 ok_buffer)) =
   [Wr \<lparr>PID = \<lparr>StreamID = 1, MessageID = 0\<rparr>, Kind = PayloadKind_Message, Data = ''a''\<rparr>]"
proof -
  let ?t = "run 0 (replicate (2 ^ 64 - 1) (Op_RawSend PayloadKind_Message ''a'')) (New 1 ok_buffer)"
  have a: "fst (pollSend (New 1 ok_buffer)) = None" "\<forall>n. outcome (buf (New 1 ok_buffer)) n = None"
    by (simp_all add: pollSend_def Signal_Get_def New_def NewSignal_def ok_buffer_def)
  from run_sends_counter [OF a, of 0 "2 ^ 64 - 1" PayloadKind_Message "''a''"]
  have m: "messageID ?t = of_nat (2 ^ 64 - 1)" and sid: "streamID ?t = 1"
    and ok: "fst (pollSend ?t) = None" "\<forall>i. outcome (buf ?t) i = None"
    by (simp_all add: New_def)
  have "(of_nat (2 ^ 64 - 1) :: 64 word) + 1 = 0" by simp
  with m have z: "messageID ?t + 1 = 0" by simp
  from ok z sid show ?thesis by (rule emitted_wrapped)
qed

end
